theory Spec2Isabelle
  imports
    Main
    "HOL-Library.Sublist"
    "HOL-Library.Char_ord"
    "HOL-Library.List_Lexorder"
begin

section \<open>JavaScript values and string primitives\<close>

text \<open>
  Strings are lists of characters. \<open>String.prototype.startsWith\<close>, \<open>endsWith\<close> and
  \<open>includes\<close> are prefix, suffix and contiguous-substring tests; \<open>includes\<close> is an Isar
  keyword, so the substring test is called \<open>includes_str\<close>.
\<close>

definition startsWith :: "string \<Rightarrow> string \<Rightarrow> bool" where
  "startsWith s p = prefix p s"

definition endsWith :: "string \<Rightarrow> string \<Rightarrow> bool" where
  "endsWith s p = suffix p s"

fun includes_str :: "string \<Rightarrow> string \<Rightarrow> bool" where
  "includes_str [] p = (p = [])"
| "includes_str (c # cs) p = (prefix p (c # cs) \<or> includes_str cs p)"

text \<open>
  Characters are code units below 256. \<open>toLowerCase\<close> maps the capital letters of that
  range (\<open>A\<close>-\<open>Z\<close>, and \<open>0xC0\<close>-\<open>0xDE\<close> except the multiplication sign \<open>0xD7\<close>) to the
  letter 32 places up, and leaves every other character as it is.
\<close>

definition lower_char :: "char \<Rightarrow> char" where
  "lower_char c =
     (if (CHR ''A'' \<le> c \<and> c \<le> CHR ''Z'') \<or> (CHR 0xC0 \<le> c \<and> c \<le> CHR 0xDE \<and> c \<noteq> CHR 0xD7)
      then char_of (of_char c + (32::nat)) else c)"

definition toLowerCase :: "string \<Rightarrow> string" where
  "toLowerCase s = map lower_char s"

text \<open>
  A value read from a JSON file. Only whether a number is zero is ever observed (its
  truthiness), so numbers are integers here.
\<close>

datatype json =
    JNull
  | JBool bool
  | JNum int
  | JStr string
  | JArr "json list"
  | JObj "(string \<times> json) list"

fun truthy :: "json \<Rightarrow> bool" where
  "truthy JNull = False"
| "truthy (JBool b) = b"
| "truthy (JNum n) = (n \<noteq> 0)"
| "truthy (JStr s) = (s \<noteq> [])"
| "truthy (JArr _) = True"
| "truthy (JObj _) = True"

text \<open>Property access \<open>v.k\<close> on a parsed value: \<open>None\<close> is \<open>undefined\<close>. Reading a
  property of \<open>null\<close> throws, which the caller models.\<close>

fun get_prop :: "json \<Rightarrow> string \<Rightarrow> json option" where
  "get_prop (JObj kvs) k = map_of kvs k"
| "get_prop _ k = None"

datatype js_exn = TypeError

section \<open>POSIX paths (node:path)\<close>

text \<open>
  \<open>path.normalize\<close> at the level of path segments: empty segments and \<open>.\<close> are dropped,
  \<open>..\<close> removes the segment before it (or is kept, for a relative path that climbs above
  its start), a trailing slash is preserved.
\<close>

fun split_slash_aux :: "string \<Rightarrow> string \<Rightarrow> string list" where
  "split_slash_aux cur [] = [rev cur]"
| "split_slash_aux cur (c # cs) =
     (if c = CHR ''/'' then rev cur # split_slash_aux [] cs
      else split_slash_aux (c # cur) cs)"

definition split_slash :: "string \<Rightarrow> string list" where
  "split_slash s = split_slash_aux [] s"

fun join_slash :: "string list \<Rightarrow> string" where
  "join_slash [] = []"
| "join_slash [s] = s"
| "join_slash (s # t # ss) = s @ ''/'' @ join_slash (t # ss)"

fun normalizeString :: "bool \<Rightarrow> string list \<Rightarrow> string list \<Rightarrow> string list" where
  "normalizeString allowAboveRoot res [] = rev res"
| "normalizeString allowAboveRoot res (s # ss) =
     (if s = [] \<or> s = ''.'' then normalizeString allowAboveRoot res ss
      else if s = ''..'' then
        (case res of
           t # res' \<Rightarrow>
             if t \<noteq> ''..'' then normalizeString allowAboveRoot res' ss
             else if allowAboveRoot then normalizeString allowAboveRoot (''..'' # res) ss
             else normalizeString allowAboveRoot res ss
         | [] \<Rightarrow>
             if allowAboveRoot then normalizeString allowAboveRoot [''..''] ss
             else normalizeString allowAboveRoot [] ss)
      else normalizeString allowAboveRoot (s # res) ss)"

definition normalize :: "string \<Rightarrow> string" where
  "normalize path =
     (if path = [] then ''.''
      else
        let isAbsolute = (hd path = CHR ''/'');
            trailingSeparator = (last path = CHR ''/'');
            p = join_slash (normalizeString (\<not> isAbsolute) [] (split_slash path))
        in if p = [] then (if isAbsolute then ''/'' else if trailingSeparator then ''./'' else ''.'')
           else (if isAbsolute then ''/'' else []) @ p @ (if trailingSeparator then ''/'' else []))"

text \<open>\<open>path.join(...args)\<close>: the non-empty arguments joined by \<open>/\<close>, then normalised.\<close>

definition path_join :: "string list \<Rightarrow> string" where
  "path_join args =
     (let joined = join_slash (filter (\<lambda>a. a \<noteq> []) args)
      in if joined = [] then ''.'' else normalize joined)"

text \<open>\<open>path.resolve(r)\<close> with one argument, relative to the working directory \<open>cwd\<close>.\<close>

definition resolve :: "string \<Rightarrow> string \<Rightarrow> string" where
  "resolve cwd r =
     (let joined = (if r = [] then cwd @ ''/''
                    else if hd r = CHR ''/'' then r @ ''/''
                    else (if cwd = [] then r @ ''/'' else cwd @ ''/'' @ r @ ''/''));
          resolvedAbsolute = (joined \<noteq> [] \<and> hd joined = CHR ''/'');
          p = join_slash (normalizeString (\<not> resolvedAbsolute) [] (split_slash joined))
      in if resolvedAbsolute then ''/'' @ p else if p \<noteq> [] then p else ''.'')"

section \<open>The file system\<close>

text \<open>
  The part of the host's file system the code touches. \<open>realpathSync\<close>, \<open>readdirSync\<close>
  and \<open>readFileSync\<close> give \<open>None\<close> where the call throws; \<open>unlink_fails\<close> marks the
  paths whose removal throws. A directory is listed once, before any of its files is
  removed, so removing a file only changes what reading that path gives.
\<close>

record filesystem =
  realpathSync :: "string \<Rightarrow> string option"
  readdirSync :: "string \<Rightarrow> string list option"
  readFileSync :: "string \<Rightarrow> string option"
  isDirectory :: "string \<Rightarrow> bool"
  unlink_fails :: "string \<Rightarrow> bool"

section \<open>Mount security (src/mount-security.js)\<close>

definition DEFAULT_BLOCKED_PATTERNS :: "string list" where
  "DEFAULT_BLOCKED_PATTERNS =
     [''.ssh'', ''.gnupg'', ''.gpg'', ''.aws'', ''.azure'', ''.gcloud'', ''.config/gcloud'',
      ''.kube'', ''.docker'', ''.env'', ''private_key'', ''id_rsa'', ''id_ed25519'',
      ''credentials'', ''secrets'', ''.npmrc'', ''.pypirc'']"

record mount =
  host_path :: string
  container_path :: string

text \<open>
  The allowlist as \<open>loadMountAllowlist\<close> builds it. \<open>allowed_roots\<close> are strings (each went
  through \<open>resolve\<close>); \<open>blocked_patterns\<close> is whatever the file held, unchecked, and
  \<open>None\<close> when the property is absent.
\<close>

record allowlist =
  allowed_roots :: "string list"
  blocked_patterns :: "json option"

record mount_result =
  valid :: bool
  reason :: "string option"

text \<open>The result of \<open>validateAdditionalMounts\<close>; its field \<open>valid\<close> is called \<open>all_valid\<close>
  here, apart from the \<open>valid\<close> of a single mount's result.\<close>

record mounts_result =
  all_valid :: bool
  errors :: "string list"

fun all_strings :: "json list \<Rightarrow> string list option" where
  "all_strings [] = Some []"
| "all_strings (JStr s # vs) = map_option ((#) s) (all_strings vs)"
| "all_strings (_ # vs) = None"

text \<open>
  \<open>loadMountAllowlist\<close>: any exception gives \<open>null\<close> (\<open>None\<close>). The file may be unreadable,
  may not parse, may parse to \<open>null\<close> (reading a property of it throws), may lack a truthy
  array \<open>allowed_roots\<close>, or may hold a root that is not a string (\<open>resolve\<close> throws).
\<close>

definition loadMountAllowlist ::
  "filesystem \<Rightarrow> (string \<Rightarrow> json option) \<Rightarrow> string \<Rightarrow> string \<Rightarrow> allowlist option"
where
  "loadMountAllowlist fs JSON_parse cwd allowlistPath =
     (case readFileSync fs allowlistPath of
        None \<Rightarrow> None
      | Some raw \<Rightarrow>
         (case JSON_parse raw of
            None \<Rightarrow> None
          | Some JNull \<Rightarrow> None
          | Some parsed \<Rightarrow>
             (case get_prop parsed ''allowed_roots'' of
                Some (JArr roots) \<Rightarrow>
                  (case all_strings roots of
                     None \<Rightarrow> None
                   | Some rs \<Rightarrow>
                       Some \<lparr> allowed_roots = map (resolve cwd) rs,
                              blocked_patterns =
                                (case get_prop parsed ''blocked_patterns'' of
                                   None \<Rightarrow> Some (JArr [])
                                 | Some v \<Rightarrow> if truthy v then Some v else Some (JArr [])) \<rparr>)
              | _ \<Rightarrow> None)))"

text \<open>The spread \<open>[...extraBlocked]\<close>, with the default \<open>[]\<close> for \<open>undefined\<close>: arrays and
  strings are iterable, nothing else that JSON can hold is.\<close>

fun spread :: "json option \<Rightarrow> js_exn + json list" where
  "spread None = Inr []"
| "spread (Some (JArr xs)) = Inr xs"
| "spread (Some (JStr s)) = Inr (map (\<lambda>c. JStr [c]) s)"
| "spread (Some _) = Inl TypeError"

text \<open>The loop of \<open>matchesBlocked\<close>: the first pattern whose lower-cased form occurs in the
  normalised, lower-cased path; a pattern that is not a string has no \<open>toLowerCase\<close>.\<close>

fun first_blocked :: "string \<Rightarrow> json list \<Rightarrow> js_exn + string option" where
  "first_blocked normalized [] = Inr None"
| "first_blocked normalized (JStr pattern # ps) =
     (if includes_str normalized (toLowerCase pattern) then Inr (Some pattern)
      else first_blocked normalized ps)"
| "first_blocked normalized (_ # ps) = Inl TypeError"

definition matchesBlocked :: "string \<Rightarrow> json option \<Rightarrow> js_exn + string option" where
  "matchesBlocked hostPath extraBlocked =
     (case spread extraBlocked of
        Inl e \<Rightarrow> Inl e
      | Inr extra \<Rightarrow>
          first_blocked (toLowerCase (normalize hostPath))
            (map JStr DEFAULT_BLOCKED_PATTERNS @ extra))"

definition validateMount ::
  "filesystem \<Rightarrow> mount \<Rightarrow> bool \<Rightarrow> allowlist \<Rightarrow> js_exn + mount_result"
where
  "validateMount fs mnt isMain al =
     (if includes_str (container_path mnt) ''..'' \<or> \<not> startsWith (container_path mnt) ''/''
      then Inr \<lparr> valid = False,
                 reason = Some (''Invalid container path: '' @ container_path mnt) \<rparr>
      else case realpathSync fs (host_path mnt) of
        None \<Rightarrow> Inr \<lparr> valid = False,
                       reason = Some (''Host path does not exist: '' @ host_path mnt) \<rparr>
      | Some realHostPath \<Rightarrow>
         (case matchesBlocked realHostPath (blocked_patterns al) of
            Inl e \<Rightarrow> Inl e
          | Inr blocked \<Rightarrow>
             (if blocked \<noteq> None \<and> blocked \<noteq> Some []
              then Inr \<lparr> valid = False,
                         reason = Some (''Path matches blocked pattern '' @ [CHR 0x27] @ the blocked
                                        @ [CHR 0x27] @ '': '' @ realHostPath) \<rparr>
              else if \<not> list_ex (\<lambda>root. realHostPath = root \<or> startsWith realHostPath (root @ ''/''))
                                 (allowed_roots al)
              then Inr \<lparr> valid = False,
                         reason = Some (''Path not under any allowed root: '' @ realHostPath) \<rparr>
              else Inr \<lparr> valid = True, reason = None \<rparr>)))"

text \<open>The loop of \<open>validateAdditionalMounts\<close>: the reasons of the rejected mounts, in
  order; an exception thrown by \<open>validateMount\<close> leaves the loop.\<close>

fun collect_errors ::
  "filesystem \<Rightarrow> bool \<Rightarrow> allowlist \<Rightarrow> mount list \<Rightarrow> js_exn + string list"
where
  "collect_errors fs isMain al [] = Inr []"
| "collect_errors fs isMain al (m # ms) =
     (case validateMount fs m isMain al of
        Inl e \<Rightarrow> Inl e
      | Inr r \<Rightarrow>
         (case collect_errors fs isMain al ms of
            Inl e \<Rightarrow> Inl e
          | Inr es \<Rightarrow> Inr (if valid r then es else the (reason r) # es)))"

text \<open>
  \<open>validateAdditionalMounts\<close>. \<open>mounts\<close> is \<open>None\<close> for \<open>undefined\<close>/\<open>null\<close>;
  \<open>allowlistPath\<close> is \<open>None\<close> for \<open>undefined\<close>, and the empty string is falsy as well.
\<close>

definition validateAdditionalMounts ::
  "filesystem \<Rightarrow> (string \<Rightarrow> json option) \<Rightarrow> string \<Rightarrow>
   mount list option \<Rightarrow> string \<Rightarrow> bool \<Rightarrow> string option \<Rightarrow> js_exn + mounts_result"
where
  "validateAdditionalMounts fs JSON_parse cwd mounts groupName isMain allowlistPath =
     (if mounts = None \<or> mounts = Some [] then Inr \<lparr> all_valid = True, errors = [] \<rparr>
      else if allowlistPath = None \<or> allowlistPath = Some []
      then Inr \<lparr> all_valid = False,
                 errors = [''No mount allowlist configured. All additional mounts are blocked.''] \<rparr>
      else case loadMountAllowlist fs JSON_parse cwd (the allowlistPath) of
        None \<Rightarrow> Inr \<lparr> all_valid = False,
                       errors = [''Failed to load mount allowlist from: '' @ the allowlistPath] \<rparr>
      | Some al \<Rightarrow>
         (case collect_errors fs isMain al (the mounts) of
            Inl e \<Rightarrow> Inl e
          | Inr es \<Rightarrow> Inr \<lparr> all_valid = (es = []), errors = es \<rparr>))"

section \<open>IPC files (ipc-utils.js)\<close>

text \<open>\<open>unlinkSync\<close> throws (\<open>None\<close>) when there is no such file or the file cannot be
  removed; otherwise the file is gone.\<close>

definition unlinkSync :: "filesystem \<Rightarrow> string \<Rightarrow> filesystem option" where
  "unlinkSync fs path =
     (if readFileSync fs path = None \<or> unlink_fails fs path then None
      else Some (fs\<lparr> readFileSync := (readFileSync fs)(path := None) \<rparr>))"

text \<open>\<open>readIpcFile\<close>: the parsed data, or \<open>null\<close> on any failure.\<close>

definition readIpcFile :: "(string \<Rightarrow> json option) \<Rightarrow> filesystem \<Rightarrow> string \<Rightarrow> json" where
  "readIpcFile JSON_parse fs filePath =
     (case readFileSync fs filePath of
        None \<Rightarrow> JNull
      | Some raw \<Rightarrow> (case JSON_parse raw of None \<Rightarrow> JNull | Some v \<Rightarrow> v))"

text \<open>The loop of \<open>drainIpcDir\<close> over the sorted names; the result is the list pushed
  and the file system left behind.\<close>

fun drain_entries ::
  "(string \<Rightarrow> json option) \<Rightarrow> string \<Rightarrow> (string \<Rightarrow> bool) option \<Rightarrow> string list \<Rightarrow> filesystem
   \<Rightarrow> (json \<times> string) list \<times> filesystem"
where
  "drain_entries JSON_parse dir filt [] fs = ([], fs)"
| "drain_entries JSON_parse dir filt (name # names) fs =
     (if \<not> endsWith name ''.json'' then drain_entries JSON_parse dir filt names fs
      else if startsWith name ''.'' then drain_entries JSON_parse dir filt names fs
      else if (case filt of None \<Rightarrow> False | Some f \<Rightarrow> \<not> f name)
      then drain_entries JSON_parse dir filt names fs
      else
        let filePath = path_join [dir, name];
            data = readIpcFile JSON_parse fs filePath
        in if data \<noteq> JNull then
             let fs' = (case unlinkSync fs filePath of None \<Rightarrow> fs | Some fs' \<Rightarrow> fs');
                 rest = drain_entries JSON_parse dir filt names fs'
             in ((data, name) # fst rest, snd rest)
           else drain_entries JSON_parse dir filt names fs)"

definition drainIpcDir ::
  "(string \<Rightarrow> json option) \<Rightarrow> filesystem \<Rightarrow> string \<Rightarrow> (string \<Rightarrow> bool) option
   \<Rightarrow> (json \<times> string) list \<times> filesystem"
where
  "drainIpcDir JSON_parse fs dir filt =
     (case readdirSync fs dir of
        None \<Rightarrow> ([], fs)
      | Some entries \<Rightarrow> drain_entries JSON_parse dir filt (sort entries) fs)"


definition wanted :: "(string \<Rightarrow> bool) option \<Rightarrow> string \<Rightarrow> bool" where
  "wanted filt n =
     (endsWith n ''.json'' \<and> \<not> startsWith n ''.'' \<and> (case filt of None \<Rightarrow> True | Some f \<Rightarrow> f n))"


section \<open>Host-side IPC watcher (ipc.js)\<close>

record registered_group =
  jid :: string
  name :: string
  folder :: string

text \<open>
  The collaborators. \<open>getRegisteredGroups\<close> is \<open>Object.values\<close> of what
  \<open>deps.getRegisteredGroups()\<close> returns; \<open>sendMessage\<close> and \<open>onTask\<close> tell whether the
  call completes (\<open>True\<close>) or throws or rejects (\<open>False\<close>).
\<close>

record ipc_deps =
  getRegisteredGroups :: "registered_group list"
  sendMessage :: "json \<Rightarrow> json \<Rightarrow> json option \<Rightarrow> bool"
  onTask :: "json \<Rightarrow> json \<Rightarrow> string \<Rightarrow> bool \<Rightarrow> bool"

text \<open>What one poll does, in order: log lines, calls of the collaborators, and calls of
  \<open>moveToErrors\<close> (which writes only under \<open><dir>/errors\<close>, a place no drain reads).\<close>

datatype effect =
    Warn string
  | LogError string
  | SendMessage json json "json option"
  | OnTask json json string bool
  | MoveToErrors string string json

fun truthy_opt :: "json option \<Rightarrow> bool" where
  "truthy_opt None = False"
| "truthy_opt (Some v) = truthy v"

text \<open>\<open>a || b\<close> on values that may be \<open>undefined\<close>.\<close>

definition js_or :: "json option \<Rightarrow> json option \<Rightarrow> json option" where
  "js_or a b = (if truthy_opt a then a else b)"

text \<open>The body of the loop over the drained messages, for one entry.\<close>

definition handle_message ::
  "ipc_deps \<Rightarrow> bool \<Rightarrow> string \<Rightarrow> string \<Rightarrow> json \<times> string \<Rightarrow> effect list"
where
  "handle_message deps isMain messagesDir groupFolder entry =
     (let data = fst entry;
          filename = snd entry;
          groups = getRegisteredGroups deps;
          targetJid = js_or (get_prop data ''targetJid'') (get_prop data ''target_jid'');
          text = get_prop data ''text'';
          sender = get_prop data ''sender''
      in if \<not> truthy_opt text then [Warn ''IPC message missing text'']
         else if \<not> isMain \<and> truthy_opt targetJid
                 \<and> (case find (\<lambda>g. folder g = groupFolder) groups of
                        None \<Rightarrow> False
                      | Some grp \<Rightarrow> targetJid \<noteq> Some (JStr (jid grp)))
         then [Warn ''Non-main group attempted cross-group message'']
         else
           let resolvedJid =
                 js_or targetJid
                   (map_option (\<lambda>g. JStr (jid g)) (find (\<lambda>g. folder g = groupFolder) groups))
           in if truthy_opt resolvedJid
              then (if sendMessage deps (the resolvedJid) (the text) sender
                    then [SendMessage (the resolvedJid) (the text) sender]
                    else [SendMessage (the resolvedJid) (the text) sender,
                          LogError ''Failed to process IPC message'',
                          MoveToErrors messagesDir filename data])
              else [])"

text \<open>The body of the loop over the drained tasks, for one entry.\<close>

definition handle_task ::
  "ipc_deps \<Rightarrow> bool \<Rightarrow> string \<Rightarrow> string \<Rightarrow> json \<times> string \<Rightarrow> effect list"
where
  "handle_task deps isMain tasksDir groupFolder entry =
     (let data = fst entry;
          filename = snd entry;
          type = get_prop data ''type''
      in if \<not> truthy_opt type then [Warn ''IPC task missing type'']
         else
           let payload = the (js_or (get_prop data ''data'') (Some data))
           in if onTask deps (the type) payload groupFolder isMain
              then [OnTask (the type) payload groupFolder isMain]
              else [OnTask (the type) payload groupFolder isMain,
                    LogError ''Failed to process IPC task'',
                    MoveToErrors tasksDir filename data])"

text \<open>One round of the loop over the group directories: both mailboxes of one folder.\<close>

definition poll_group ::
  "ipc_deps \<Rightarrow> (string \<Rightarrow> json option) \<Rightarrow> string \<Rightarrow> filesystem \<Rightarrow> string
   \<Rightarrow> effect list \<times> filesystem"
where
  "poll_group deps JSON_parse ipcBase fs groupFolder =
     (let isMain = list_ex (\<lambda>g. folder g = groupFolder \<and> folder g = ''main'')
                     (getRegisteredGroups deps);
          messagesDir = path_join [ipcBase, groupFolder, ''messages''];
          messages = drainIpcDir JSON_parse fs messagesDir None;
          sent = concat (map (handle_message deps isMain messagesDir groupFolder) (fst messages));
          tasksDir = path_join [ipcBase, groupFolder, ''tasks''];
          tasks = drainIpcDir JSON_parse (snd messages) tasksDir None;
          done = concat (map (handle_task deps isMain tasksDir groupFolder) (fst tasks))
      in (sent @ done, snd tasks))"

text \<open>\<open>poll\<close>: every effect is recorded with the group directory whose mailbox caused it.\<close>

fun poll_groups ::
  "ipc_deps \<Rightarrow> (string \<Rightarrow> json option) \<Rightarrow> string \<Rightarrow> string list \<Rightarrow> filesystem
   \<Rightarrow> (string \<times> effect) list \<times> filesystem"
where
  "poll_groups deps JSON_parse ipcBase [] fs = ([], fs)"
| "poll_groups deps JSON_parse ipcBase (groupFolder # groupDirs) fs =
     (let here = poll_group deps JSON_parse ipcBase fs groupFolder;
          rest = poll_groups deps JSON_parse ipcBase groupDirs (snd here)
      in (map (Pair groupFolder) (fst here) @ fst rest, snd rest))"

definition poll ::
  "ipc_deps \<Rightarrow> (string \<Rightarrow> json option) \<Rightarrow> string \<Rightarrow> filesystem
   \<Rightarrow> (string \<times> effect) list \<times> filesystem"
where
  "poll deps JSON_parse ipcBase fs =
     (case readdirSync fs ipcBase of
        None \<Rightarrow> ([], fs)
      | Some entries \<Rightarrow>
          poll_groups deps JSON_parse ipcBase
            (filter (\<lambda>d. isDirectory fs (path_join [ipcBase, d])) entries) fs)"

section \<open>Thrown values, promises and the logger\<close>

text \<open>
  What a \<open>catch\<close> clause can receive: \<open>undefined\<close>, or a value, which may be \<open>null\<close>. An
  \<open>Error\<close> is the object that holds its \<open>message\<close>. Reading \<open>err.message\<close> throws a
  \<open>TypeError\<close> when \<open>err\<close> is \<open>null\<close> or \<open>undefined\<close>, and for no other value.
\<close>

datatype js_value = Undefined | Val json

definition new_Error :: "string \<Rightarrow> js_value" where
  "new_Error msg = Val (JObj [(''message'', JStr msg)])"

definition nullish :: "js_value \<Rightarrow> bool" where
  "nullish v = (v = Undefined \<or> v = Val JNull)"

text \<open>What an awaited call does: it returns a value, or it throws (rejects with) one.\<close>

datatype 'a outcome = Returned 'a | Threw js_value

datatype ('a, 'e) promise = Pending | Fulfilled 'a | Failed 'e

text \<open>A promise settles once: later calls of \<open>resolve\<close> or \<open>reject\<close> change nothing.\<close>

definition settle :: "('a, 'e) promise \<Rightarrow> ('a, 'e) promise \<Rightarrow> ('a, 'e) promise" where
  "settle p v = (if p = Pending then v else p)"

text \<open>
  A \<open>Logger\<close> is a collaborator: each of the two methods called here, \<open>warn\<close> and \<open>error\<close>,
  either returns or throws. \<open>createLogger\<close> gives the console logger, whose methods print
  the JSON text of their arguments and return. In a config the logger may be missing;
  \<open>log_call\<close> tells whether a call \<open>log.m(\<dots>)\<close> returns, and \<open>log_caught\<close> whether a call
  \<open>log.m(\<dots>, { error: err.message })\<close> does. Where they do not, the call throws.
\<close>

record logger =
  warn_returns :: bool
  error_returns :: bool

definition createLogger :: logger where
  "createLogger = \<lparr> warn_returns = True, error_returns = True \<rparr>"

definition log_call :: "logger option \<Rightarrow> (logger \<Rightarrow> bool) \<Rightarrow> bool" where
  "log_call lg m = (case lg of None \<Rightarrow> False | Some l \<Rightarrow> m l)"

definition log_caught :: "logger option \<Rightarrow> (logger \<Rightarrow> bool) \<Rightarrow> js_value \<Rightarrow> bool" where
  "log_caught lg m err = (log_call lg m \<and> \<not> nullish err)"

text \<open>A list without its \<open>i\<close>-th element.\<close>

definition drop_nth :: "nat \<Rightarrow> 'a list \<Rightarrow> 'a list" where
  "drop_nth i xs = take i xs @ drop (Suc i) xs"

section \<open>Container runner (container-runner.js)\<close>

definition OUTPUT_START_MARKER :: string where
  "OUTPUT_START_MARKER = ''---JSCLAW_OUTPUT_START---''"

definition OUTPUT_END_MARKER :: string where
  "OUTPUT_END_MARKER = ''---JSCLAW_OUTPUT_END---''"

text \<open>
  An output is whatever \<open>JSON.parse\<close> returns for the text between two markers: a
  \<open>ContainerOutput\<close> object when the agent wrote it, but any JSON value can stand there.
  \<open>JSON_parse\<close> gives the value a text holds, and \<open>None\<close> where \<open>JSON.parse\<close> throws.
\<close>

text \<open>\<open>indexOf(pat)\<close>: the first position where \<open>pat\<close> occurs, \<open>None\<close> for \<open>-1\<close>;
  \<open>indexOf(pat, from)\<close> starts the search at \<open>from\<close>, clamped to the length.\<close>

fun indexOf :: "string \<Rightarrow> string \<Rightarrow> nat option" where
  "indexOf [] pat = (if pat = [] then Some 0 else None)"
| "indexOf (c # cs) pat =
     (if prefix pat (c # cs) then Some 0 else map_option Suc (indexOf cs pat))"

definition indexOf_from :: "string \<Rightarrow> string \<Rightarrow> nat \<Rightarrow> nat option" where
  "indexOf_from s pat from =
     (let k = min from (length s) in map_option (\<lambda>i. k + i) (indexOf (drop k s) pat))"

text \<open>\<open>slice(a, b)\<close> and \<open>slice(a)\<close> for \<open>0 \<le> a\<close>, and \<open>slice(-n)\<close> (where \<open>-0\<close> is \<open>0\<close>: the
  whole string).\<close>

definition slice :: "string \<Rightarrow> nat \<Rightarrow> nat \<Rightarrow> string" where
  "slice s a b = take (b - a) (drop a s)"

definition slice_last :: "string \<Rightarrow> nat \<Rightarrow> string" where
  "slice_last s n = (if n = 0 then s else drop (length s - n) s)"

definition is_space :: "char \<Rightarrow> bool" where
  "is_space c =
     (c \<in> set [CHR 0x09, CHR 0x0A, CHR 0x0B, CHR 0x0C, CHR 0x0D, CHR 0x20, CHR 0xA0])"

definition trim :: "string \<Rightarrow> string" where
  "trim s = rev (dropWhile is_space (rev (dropWhile is_space s)))"

text \<open>One frame: the output pushed for the text between the markers.\<close>

definition frame_output :: "(string \<Rightarrow> json option) \<Rightarrow> string \<Rightarrow> json" where
  "frame_output JSON_parse jsonStr =
     (case JSON_parse jsonStr of
        Some output \<Rightarrow> output
      | None \<Rightarrow> JObj [(''status'', JStr ''error''), (''result'', JNull),
                      (''error'', JStr (''Failed to parse output: '' @ take 200 jsonStr))])"

text \<open>A match found by \<open>indexOf\<close> lies inside the string; the parser's loop ends because
  of it.\<close>

lemma indexOf_bound: "indexOf s pat = Some i \<Longrightarrow> i + length pat \<le> length s"
proof (induction s arbitrary: i)
  case Nil
  then show ?case by (auto split: if_splits)
next
  case (Cons c cs)
  then show ?case
    by (auto split: if_splits dest: prefix_length_le)
qed

lemma indexOf_from_bound: "indexOf_from s pat k = Some i \<Longrightarrow> i + length pat \<le> length s"
  by (auto simp: indexOf_from_def Let_def dest!: indexOf_bound)

text \<open>The \<open>while (true)\<close> loop of \<open>parseContainerOutput\<close>.\<close>

function parse_frames ::
  "(string \<Rightarrow> json option) \<Rightarrow> json list \<Rightarrow> string \<Rightarrow> json list \<times> string"
where
  "parse_frames JSON_parse outputs remaining =
     (case indexOf remaining OUTPUT_START_MARKER of
        None \<Rightarrow> (outputs, remaining)
      | Some startIdx \<Rightarrow>
          let afterStart = startIdx + length OUTPUT_START_MARKER
          in (case indexOf_from remaining OUTPUT_END_MARKER afterStart of
                None \<Rightarrow> (outputs, remaining)
              | Some endIdx \<Rightarrow>
                  let jsonStr = trim (slice remaining afterStart endIdx)
                  in parse_frames JSON_parse (outputs @ [frame_output JSON_parse jsonStr])
                       (drop (endIdx + length OUTPUT_END_MARKER) remaining)))"
  by pat_completeness auto
termination
proof (relation "measure (\<lambda>(P, outputs, remaining). length remaining)")
  show "wf (measure (\<lambda>(P, outputs, remaining). length remaining))" by simp
next
  fix JSON_parse :: "string \<Rightarrow> json option"
    and outputs :: "json list" and remaining startIdx afterStart endIdx jsonStr
  assume "indexOf_from remaining OUTPUT_END_MARKER afterStart = Some endIdx"
  then have "endIdx + length OUTPUT_END_MARKER \<le> length remaining"
    by (rule indexOf_from_bound)
  then have "length (drop (endIdx + length OUTPUT_END_MARKER) remaining) < length remaining"
    by (simp add: OUTPUT_END_MARKER_def)
  then show "((JSON_parse, outputs @ [frame_output JSON_parse jsonStr],
           drop (endIdx + length OUTPUT_END_MARKER) remaining),
          JSON_parse, outputs, remaining) \<in> measure (\<lambda>(P, outputs, remaining). length remaining)"
    by simp
qed

declare parse_frames.simps [simp del]

definition parseContainerOutput ::
  "(string \<Rightarrow> json option) \<Rightarrow> string \<Rightarrow> json list \<times> string"
where
  "parseContainerOutput JSON_parse buffer = parse_frames JSON_parse [] buffer"

text \<open>Feeding chunks one at a time, as the \<open>stdout\<close> handler does: the chunk is appended
  to the buffer, the buffer is parsed, and what remains is the next buffer.\<close>

fun feed_chunks ::
  "(string \<Rightarrow> json option) \<Rightarrow> string \<Rightarrow> string list \<Rightarrow> json list \<times> string"
where
  "feed_chunks JSON_parse stdoutBuffer [] = ([], stdoutBuffer)"
| "feed_chunks JSON_parse stdoutBuffer (chunk # chunks) =
     (let parsed = parseContainerOutput JSON_parse (stdoutBuffer @ chunk);
          rest = feed_chunks JSON_parse (snd parsed) chunks
      in (fst parsed @ fst rest, snd rest))"

text \<open>\<open>writeOutput\<close> of the agent runner inside the container: one frame on stdout.\<close>

definition writeOutput :: "('a \<Rightarrow> string) \<Rightarrow> 'a \<Rightarrow> string" where
  "writeOutput JSON_stringify output =
     ''\<newline>'' @ OUTPUT_START_MARKER @ ''\<newline>'' @ JSON_stringify output @ ''\<newline>''
       @ OUTPUT_END_MARKER @ ''\<newline>''"

text \<open>
  The exit code of the \<open>close\<close> event is an integer, or \<open>null\<close> when a signal ended the
  process; a template string renders an integer of that size in decimal digits.
\<close>

function show_nat :: "nat \<Rightarrow> string" where
  "show_nat n =
     (if n < 10 then [''0123456789'' ! n]
      else show_nat (n div 10) @ [''0123456789'' ! (n mod 10)])"
  by pat_completeness auto
termination
  by (relation "measure id") auto

fun show_code :: "int option \<Rightarrow> string" where
  "show_code None = ''null''"
| "show_code (Some c) = (if c < 0 then ''-'' @ show_nat (nat (- c)) else show_nat (nat c))"

text \<open>
  The part of the config that \<open>runContainerAgent\<close> reads once the child is spawned.
  \<open>containerTimeout\<close> is a JavaScript number of which only the rendering in a template
  string is used: the numbers are a type parameter \<open>'n\<close>, and their rendering is a
  parameter \<open>String_of\<close> of the model. \<open>maxOutputSize\<close> is a size, a natural number. The
  logger is there: \<open>runContainerAgent\<close> calls \<open>log.info\<close> before it spawns the child, and
  with a config that holds no logger it throws at that call.
\<close>

record 'n runner_config =
  containerTimeout :: 'n
  maxOutputSize :: nat
  runner_logger :: logger

text \<open>
  The variables of one \<open>runContainerAgent\<close> call. \<open>lastOutput\<close> starts as \<open>null\<close>.
  \<open>timer_armed\<close> tells whether the idle timer is pending. The \<open>stdout\<close> handler is an
  \<open>async\<close> function that stops at \<open>await onOutput(output)\<close>: \<open>awaiting\<close> holds, for every
  handler stopped there, the outputs of its chunk that it has not reached yet. \<open>delivered\<close>
  lists the outputs \<open>onOutput\<close> was called with, \<open>kills\<close> counts the calls of
  \<open>killContainer\<close>. The promise is resolved with a value, or rejected with an \<open>Error\<close> that
  holds a message.
\<close>

record runner_state =
  stdoutBuffer :: string
  stderrBuffer :: string
  lastOutput :: json
  timedOut :: bool
  timer_armed :: bool
  awaiting :: "json list list"
  delivered :: "json list"
  kills :: nat
  resolution :: "(json, string) promise"

text \<open>
  What can happen after the spawn: a chunk arrives on \<open>stdout\<close> or \<open>stderr\<close>, the call of
  \<open>onOutput\<close> that the \<open>i\<close>-th stopped handler awaits finishes (it returns, or it throws or
  rejects with a value), the idle timer fires, the child closes with an exit code, the
  child emits \<open>error\<close>.
\<close>

datatype runner_event =
    StdoutData string
  | OutputDone nat "unit outcome"
  | StderrData string
  | IdleTimeout
  | Close "int option"
  | SpawnError string

definition spawned :: runner_state where
  "spawned = \<lparr> stdoutBuffer = [], stderrBuffer = [], lastOutput = JNull, timedOut = False,
               timer_armed = True, awaiting = [], delivered = [], kills = 0,
               resolution = Pending \<rparr>"

text \<open>
  What the \<open>close\<close> handler passes to \<open>resolve\<close>. The tests are tests of truthiness:
  \<open>lastOutput?.result || null\<close> is \<open>null\<close> for an empty result too, and \<open>if (lastOutput)\<close> fails
  for an output that is \<open>null\<close>, \<open>false\<close>, \<open>0\<close> or the empty string. A property whose value
  is \<open>undefined\<close> is left out of the object.
\<close>

definition close_result ::
  "('n \<Rightarrow> string) \<Rightarrow> 'n runner_config \<Rightarrow> runner_state \<Rightarrow> int option \<Rightarrow> json"
where
  "close_result String_of cfg st code =
     (if timedOut st
      then JObj ([(''status'', JStr ''error''),
                  (''result'', the (js_or (get_prop (lastOutput st) ''result'') (Some JNull))),
                  (''error'', JStr (''Container timed out after ''
                                     @ String_of (containerTimeout cfg) @ ''ms''))]
                 @ (case get_prop (lastOutput st) ''newSessionId'' of
                      None \<Rightarrow> []
                    | Some v \<Rightarrow> [(''newSessionId'', v)]))
      else if truthy (lastOutput st) then lastOutput st
      else if code = Some 0 then JObj [(''status'', JStr ''success''), (''result'', JNull)]
      else JObj [(''status'', JStr ''error''), (''result'', JNull),
                 (''error'', JStr (''Container exited with code '' @ show_code code
                                    @ ''. stderr: '' @ slice_last (stderrBuffer st) 500))])"

text \<open>
  The loop of the \<open>stdout\<close> handler over the outputs of a chunk, from the start or from
  where a handler was stopped: the output is recorded and the timer reset; with an
  \<open>onOutput\<close> callback the handler then stops at the \<open>await\<close>, without one it goes on.
\<close>

fun output_loop :: "bool \<Rightarrow> runner_state \<Rightarrow> json list \<Rightarrow> runner_state" where
  "output_loop onOutput st [] = st"
| "output_loop onOutput st (output # outputs) =
     (let st1 = st\<lparr> lastOutput := output, timer_armed := True \<rparr>
      in if onOutput
         then st1\<lparr> awaiting := awaiting st1 @ [outputs], delivered := delivered st1 @ [output] \<rparr>
         else output_loop onOutput st1 outputs)"

text \<open>
  The event handlers. Where a log call throws, the rest of the handler is not run: the
  container is not killed; and a handler whose \<open>onOutput\<close> call failed, and whose \<open>catch\<close>
  block cannot log the error (the logger throws, or the value thrown is \<open>null\<close> or
  \<open>undefined\<close>), ends there, without the outputs it has not reached.
\<close>

fun on_event ::
  "'n runner_config \<Rightarrow> (string \<Rightarrow> json option) \<Rightarrow> ('n \<Rightarrow> string) \<Rightarrow> bool \<Rightarrow> runner_state
   \<Rightarrow> runner_event \<Rightarrow> runner_state"
where
  "on_event cfg JSON_parse String_of onOutput st (StdoutData chunk) =
     (let buffer = stdoutBuffer st @ chunk
      in if length buffer > maxOutputSize cfg
         then st\<lparr> stdoutBuffer := buffer,
                 kills := (if error_returns (runner_logger cfg) then kills st + 1 else kills st) \<rparr>
         else
           let parsed = parseContainerOutput JSON_parse buffer
           in output_loop onOutput (st\<lparr> stdoutBuffer := snd parsed \<rparr>) (fst parsed))"
| "on_event cfg JSON_parse String_of onOutput st (OutputDone i outcome) =
     (if i < length (awaiting st)
      then
        let outputs = awaiting st ! i;
            st1 = st\<lparr> awaiting := drop_nth i (awaiting st) \<rparr>
        in (case outcome of
              Returned u \<Rightarrow> output_loop onOutput st1 outputs
            | Threw err \<Rightarrow>
                if log_caught (Some (runner_logger cfg)) error_returns err
                then output_loop onOutput st1 outputs else st1)
      else st)"
| "on_event cfg JSON_parse String_of onOutput st (StderrData chunk) =
     (let buffer = stderrBuffer st @ chunk
      in st\<lparr> stderrBuffer :=
               (if length buffer > maxOutputSize cfg
                then slice_last buffer (maxOutputSize cfg div 2) else buffer) \<rparr>)"
| "on_event cfg JSON_parse String_of onOutput st IdleTimeout =
     (if timer_armed st
      then st\<lparr> timedOut := True, timer_armed := False,
              kills := (if warn_returns (runner_logger cfg) then kills st + 1 else kills st) \<rparr>
      else st)"
| "on_event cfg JSON_parse String_of onOutput st (Close code) =
     st\<lparr> timer_armed := False,
         resolution := settle (resolution st) (Fulfilled (close_result String_of cfg st code)) \<rparr>"
| "on_event cfg JSON_parse String_of onOutput st (SpawnError msg) =
     st\<lparr> timer_armed := False,
         resolution := settle (resolution st) (Failed (''Failed to spawn container: '' @ msg)) \<rparr>"

definition run_container ::
  "'n runner_config \<Rightarrow> (string \<Rightarrow> json option) \<Rightarrow> ('n \<Rightarrow> string) \<Rightarrow> bool \<Rightarrow> runner_event list
   \<Rightarrow> runner_state"
where
  "run_container cfg JSON_parse String_of onOutput events =
     foldl (on_event cfg JSON_parse String_of onOutput) spawned events"


text \<open>What the child wrote, as the events hold it: the text on \<open>stdout\<close> and on \<open>stderr\<close>.\<close>

fun stdout_chunk :: "runner_event \<Rightarrow> string" where
  "stdout_chunk (StdoutData chunk) = chunk"
| "stdout_chunk _ = []"

fun stderr_chunk :: "runner_event \<Rightarrow> string" where
  "stderr_chunk (StderrData chunk) = chunk"
| "stderr_chunk _ = []"

definition stdout_of :: "runner_event list \<Rightarrow> string" where
  "stdout_of events = concat (map stdout_chunk events)"

definition stderr_of :: "runner_event list \<Rightarrow> string" where
  "stderr_of events = concat (map stderr_chunk events)"

text \<open>
  A handler stopped at an \<open>await\<close> is on its last output when it has no further output to
  reach. A run is in order when every chunk that arrives on \<open>stdout\<close> finds every handler
  that is still stopped on its last output, and fits into the buffer within the size
  limit; and when every \<open>onOutput\<close> call that fails has its error logged. Then every chunk
  is parsed, and no handler goes on to a further output of its chunk after a later chunk
  has come.
\<close>

definition on_last_output :: "runner_state \<Rightarrow> bool" where
  "on_last_output st = list_all (\<lambda>outputs. outputs = []) (awaiting st)"



text \<open>The last of the outputs, or \<open>null\<close> when there is none.\<close>

definition last_output :: "json list \<Rightarrow> json" where
  "last_output outputs = (if outputs = [] then JNull else last outputs)"

section \<open>Group queue (group-queue.js)\<close>

definition MAX_RETRIES :: nat where
  "MAX_RETRIES = 5"

definition BASE_RETRY_DELAY :: nat where
  "BASE_RETRY_DELAY = 5000"

text \<open>
  A queue item: \<open>has_fn\<close> tells whether it carries \<open>fn\<close> (a task) or not (a message
  check); \<open>item_id\<close> stands for the identity of its promise.
\<close>

record queue_item =
  item_id :: nat
  has_fn :: bool
  taskId :: "string option"

text \<open>A \<open>GroupState\<close>; its \<open>jid\<close> is called \<open>state_jid\<close> here, and \<open>process\<close> holds a
  number that stands for the child process.\<close>

record group_state =
  state_jid :: string
  process :: "nat option"
  containerName :: "string option"
  groupFolder :: "string option"
  processing :: bool
  queue :: "queue_item list"

text \<open>
  The part of a \<open>JsclawConfig\<close> that the queue reads. \<open>createConfig\<close>, in an environment
  that sets no \<open>JSCLAW\<close> variable: the overrides are laid over the defaults, and a config
  left without logger gets the console logger. The constructor of the queue takes a
  config as it is given, and calls \<open>createConfig()\<close> when it is given none.
\<close>

record queue_config =
  maxConcurrentContainers :: int
  logger :: "logger option"

definition DEFAULTS :: queue_config where
  "DEFAULTS = \<lparr> maxConcurrentContainers = 5, logger = None \<rparr>"

definition createConfig :: "(queue_config \<Rightarrow> queue_config) \<Rightarrow> queue_config" where
  "createConfig overrides =
     (let cfg = overrides DEFAULTS
      in if logger cfg = None then cfg\<lparr> logger := Some createLogger \<rparr> else cfg)"

text \<open>
  The \<open>try\<close>/\<open>catch\<close> of \<open>_processItem\<close>, given what the awaited call of the attempt did:
  resolve, schedule the retry, or reject. The \<open>catch\<close> block logs before it calls
  \<open>setTimeout\<close> or \<open>item.reject\<close>; when the log call throws, the block is left at once
  (\<open>Escape\<close>): nothing is scheduled and the promise of the item is not settled.
\<close>

datatype verdict = Resolve bool | Retry nat | Reject js_value | Escape

definition attempt_verdict :: "logger option \<Rightarrow> nat \<Rightarrow> bool outcome \<Rightarrow> verdict" where
  "attempt_verdict lg attempt outcome =
     (case outcome of
        Returned r \<Rightarrow> Resolve r
      | Threw err \<Rightarrow>
          if attempt < MAX_RETRIES
          then (if log_caught lg warn_returns err
                then Retry (BASE_RETRY_DELAY * 2 ^ attempt) else Escape)
          else (if log_caught lg error_returns err then Reject err else Escape))"

text \<open>The condition of the \<open>finally\<close> block, which runs after the \<open>return\<close> of the
  \<open>catch\<close> block too.\<close>

definition releases_slot :: "queue_item \<Rightarrow> nat \<Rightarrow> bool" where
  "releases_slot item attempt = (attempt \<ge> MAX_RETRIES \<or> \<not> has_fn item)"

text \<open>
  One item's way through \<open>_processItem\<close> and the retries it schedules, as the list of
  what happens: \<open>lg\<close> is the logger of the queue, \<open>fn k\<close> is what the call of attempt \<open>k\<close>
  does. When the \<open>catch\<close> block throws, the \<open>finally\<close> block still runs, and then the
  promise of \<open>_processItem\<close>, which nobody handles, is rejected (\<open>Unhandled\<close>).
\<close>

datatype item_action =
  Call nat | Resolved bool | Rejected js_value | SetTimeout nat | Release | Unhandled

function processItem ::
  "logger option \<Rightarrow> queue_item \<Rightarrow> (nat \<Rightarrow> bool outcome) \<Rightarrow> nat \<Rightarrow> item_action list"
where
  "processItem lg item fn attempt =
     Call attempt #
     (case attempt_verdict lg attempt (fn attempt) of
        Resolve r \<Rightarrow> Resolved r # (if releases_slot item attempt then [Release] else [])
      | Retry delay \<Rightarrow>
          SetTimeout delay # (if releases_slot item attempt then [Release] else [])
            @ processItem lg item fn (attempt + 1)
      | Reject err \<Rightarrow> Rejected err # (if releases_slot item attempt then [Release] else [])
      | Escape \<Rightarrow> (if releases_slot item attempt then [Release] else []) @ [Unhandled])"
  by pat_completeness auto
termination
  by (relation "measure (\<lambda>(lg, item, fn, attempt). MAX_RETRIES - attempt)")
     (auto simp: attempt_verdict_def split: outcome.splits if_splits)

declare processItem.simps [simp del]

text \<open>What a list of actions holds: the attempts made, the delays of the retries
  scheduled, and how the promise was settled.\<close>

fun attempts_made :: "item_action list \<Rightarrow> nat list" where
  "attempts_made [] = []"
| "attempts_made (Call k # as) = k # attempts_made as"
| "attempts_made (_ # as) = attempts_made as"

fun retry_delays :: "item_action list \<Rightarrow> nat list" where
  "retry_delays [] = []"
| "retry_delays (SetTimeout d # as) = d # retry_delays as"
| "retry_delays (_ # as) = retry_delays as"

fun settlements :: "item_action list \<Rightarrow> item_action list" where
  "settlements [] = []"
| "settlements (Resolved r # as) = Resolved r # settlements as"
| "settlements (Rejected e # as) = Rejected e # settlements as"
| "settlements (_ # as) = settlements as"

text \<open>
  The queue. \<open>groups\<close> is the map in insertion order; \<open>running\<close> holds the attempts whose
  call has not finished, \<open>timers\<close> the retries that \<open>setTimeout\<close> holds (delay, group,
  item, attempt), \<open>promises\<close> the items settled so far, \<open>unhandled\<close> the items whose
  \<open>_processItem\<close> ended with an exception; \<open>processMessagesFn\<close> tells whether the function
  is set.
\<close>

record queue_state =
  config :: queue_config
  queue_log :: "logger option"
  groups :: "(string \<times> group_state) list"
  activeCount :: int
  processMessagesFn :: bool
  next_item :: nat
  running :: "(string \<times> queue_item \<times> nat) list"
  timers :: "(nat \<times> string \<times> queue_item \<times> nat) list"
  promises :: "(nat \<times> (bool, js_value) promise) list"
  unhandled :: "nat list"

text \<open>The constructor: \<open>config || createConfig()\<close>, and the logger of that config.\<close>

definition GroupQueue :: "queue_config option \<Rightarrow> queue_state" where
  "GroupQueue given =
     (let cfg = (case given of None \<Rightarrow> createConfig (\<lambda>c. c) | Some c \<Rightarrow> c)
      in \<lparr> config = cfg, queue_log = logger cfg, groups = [], activeCount = 0,
           processMessagesFn = False, next_item = 0, running = [], timers = [], promises = [],
           unhandled = [] \<rparr>)"

text \<open>\<open>new GroupQueue(createConfig({ maxConcurrentContainers: maxc }))\<close>, the way the README
  builds a queue.\<close>

definition new_queue :: "int \<Rightarrow> queue_state" where
  "new_queue maxc =
     GroupQueue (Some (createConfig (\<lambda>c. c\<lparr> maxConcurrentContainers := maxc \<rparr>)))"

definition upd_group ::
  "string \<Rightarrow> (group_state \<Rightarrow> group_state) \<Rightarrow> (string \<times> group_state) list
   \<Rightarrow> (string \<times> group_state) list"
where
  "upd_group k f gs = map (\<lambda>(k', g). if k' = k then (k', f g) else (k', g)) gs"

definition getGroup :: "queue_state \<Rightarrow> string \<Rightarrow> queue_state" where
  "getGroup st k =
     (if map_of (groups st) k \<noteq> None then st
      else st\<lparr> groups := groups st @
             [(k, \<lparr> state_jid = k, process = None, containerName = None, groupFolder = None,
                    processing = False, queue = [] \<rparr>)] \<rparr>)"

text \<open>
  \<open>_processItem\<close> from the end of the awaited call on: the \<open>try\<close>/\<open>catch\<close>, then the
  \<open>finally\<close> block without its last line. The boolean tells whether the slot was
  released, in which case \<open>_drain\<close> is called next.
\<close>

definition finish_attempt ::
  "queue_state \<Rightarrow> string \<Rightarrow> queue_item \<Rightarrow> nat \<Rightarrow> bool outcome \<Rightarrow> queue_state \<times> bool"
where
  "finish_attempt st k item attempt outcome =
     (let st1 =
            (case attempt_verdict (queue_log st) attempt outcome of
               Resolve r \<Rightarrow> st\<lparr> promises := promises st @ [(item_id item, Fulfilled r)] \<rparr>
             | Retry delay \<Rightarrow> st\<lparr> timers := timers st @ [(delay, k, item, attempt + 1)] \<rparr>
             | Reject err \<Rightarrow> st\<lparr> promises := promises st @ [(item_id item, Failed err)] \<rparr>
             | Escape \<Rightarrow> st\<lparr> unhandled := unhandled st @ [item_id item] \<rparr>)
      in if releases_slot item attempt
         then (st1\<lparr> groups := upd_group k (\<lambda>g. g\<lparr> processing := False, process := None,
                                                     containerName := None \<rparr>) (groups st1),
                    activeCount := activeCount st1 - 1 \<rparr>, True)
         else (st1, False))"

text \<open>\<open>_processItem\<close> up to the awaited call. With nothing to call, the \<open>throw\<close> is
  caught at once.\<close>

definition begin_attempt ::
  "queue_state \<Rightarrow> string \<Rightarrow> queue_item \<Rightarrow> nat \<Rightarrow> queue_state \<times> bool"
where
  "begin_attempt st k item attempt =
     (if has_fn item \<or> processMessagesFn st
      then (st\<lparr> running := running st @ [(k, item, attempt)] \<rparr>, False)
      else finish_attempt st k item attempt
             (Threw (new_Error ''No processing function configured'')))"

definition queued :: "queue_state \<Rightarrow> nat" where
  "queued st = sum_list (map (\<lambda>(k, g). length (queue g)) (groups st))"

lemma queued_finish [simp]: "queued (fst (finish_attempt st k item attempt outcome)) = queued st"
  by (auto simp: finish_attempt_def queued_def upd_group_def Let_def comp_def case_prod_unfold
      split: verdict.splits intro!: arg_cong [where f = sum_list])

lemma queued_begin [simp]: "queued (fst (begin_attempt st k item attempt)) = queued st"
proof (cases "has_fn item \<or> processMessagesFn st")
  case True
  then show ?thesis by (simp add: begin_attempt_def queued_def)
next
  case False
  then show ?thesis by (simp add: begin_attempt_def)
qed

lemma dequeue_le:
  "sum_list (map (\<lambda>(k, g). length (queue g))
      (upd_group k (\<lambda>g. g\<lparr> processing := True, queue := tl (queue g) \<rparr>) gs))
   \<le> sum_list (map (\<lambda>(k, g). length (queue g)) gs)"
  by (induction gs) (auto simp: upd_group_def)

lemma dequeue_less:
  "(k, g) \<in> set gs \<Longrightarrow> queue g \<noteq> [] \<Longrightarrow>
   sum_list (map (\<lambda>(k, g). length (queue g))
      (upd_group k (\<lambda>g. g\<lparr> processing := True, queue := tl (queue g) \<rparr>) gs))
   < sum_list (map (\<lambda>(k, g). length (queue g)) gs)"
proof (induction gs)
  case Nil
  then show ?case by simp
next
  case (Cons a gs)
  show ?case
  proof (cases "a = (k, g)")
    case True
    with Cons.prems dequeue_le [of k gs] show ?thesis
      by (cases "queue g") (auto simp: upd_group_def)
  next
    case False
    with Cons have
      "sum_list (map (\<lambda>(k, g). length (queue g))
          (upd_group k (\<lambda>g. g\<lparr> processing := True, queue := tl (queue g) \<rparr>) gs))
       < sum_list (map (\<lambda>(k, g). length (queue g)) gs)"
      by auto
    then show ?thesis
      by (cases a) (auto simp: upd_group_def)
  qed
qed

text \<open>\<open>_drain\<close>: the first group that is not processing and has queued work gets the
  slot. It calls itself again when the item it started gave the slot back at once.\<close>

function drain :: "queue_state \<Rightarrow> queue_state" where
  "drain st =
     (if activeCount st \<ge> maxConcurrentContainers (config st) then st
      else case find (\<lambda>(k, g). \<not> (processing g \<or> queue g = [])) (groups st) of
        None \<Rightarrow> st
      | Some (k, g) \<Rightarrow>
          let item = hd (queue g);
              st1 = st\<lparr> groups := upd_group k (\<lambda>g. g\<lparr> processing := True, queue := tl (queue g) \<rparr>)
                                     (groups st),
                       activeCount := activeCount st + 1 \<rparr>;
              started = begin_attempt st1 k item 0
          in if snd started then drain (fst started) else fst started)"
  by pat_completeness auto
termination
proof (relation "measure queued")
  show "wf (measure queued)" by simp
next
  fix st :: queue_state and x2 k g item st1 started
  assume f: "find (\<lambda>(k, g). \<not> (processing g \<or> queue g = [])) (groups st) = Some x2"
    and x2: "(k, g) = x2"
    and st1: "st1 = st\<lparr> groups := upd_group k (\<lambda>g. g\<lparr> processing := True, queue := tl (queue g) \<rparr>)
                                     (groups st),
                       activeCount := activeCount st + 1 \<rparr>"
    and started: "started = begin_attempt st1 k item 0"
  from f x2 have "(k, g) \<in> set (groups st)" "queue g \<noteq> []"
    by (auto simp: find_Some_iff dest: nth_mem)
  then have "queued st1 < queued st"
    unfolding st1 queued_def by (simp add: dequeue_less)
  then show "(fst started, st) \<in> measure queued"
    by (simp add: started)
qed

declare drain.simps [simp del]

definition after_release :: "queue_state \<times> bool \<Rightarrow> queue_state" where
  "after_release r = (if snd r then drain (fst r) else fst r)"

definition enqueueMessageCheck :: "queue_state \<Rightarrow> string \<Rightarrow> queue_state" where
  "enqueueMessageCheck st groupJid =
     (let st1 = getGroup st groupJid;
          item = \<lparr> item_id = next_item st1, has_fn = False, taskId = None \<rparr>
      in drain (st1\<lparr> groups := upd_group groupJid (\<lambda>g. g\<lparr> queue := queue g @ [item] \<rparr>)
                                   (groups st1),
                    next_item := next_item st1 + 1 \<rparr>))"

definition enqueueTask :: "queue_state \<Rightarrow> string \<Rightarrow> string \<Rightarrow> queue_state" where
  "enqueueTask st groupJid tid =
     (let st1 = getGroup st groupJid;
          item = \<lparr> item_id = next_item st1, has_fn = True, taskId = Some tid \<rparr>
      in drain (st1\<lparr> groups := upd_group groupJid (\<lambda>g. g\<lparr> queue := item # queue g \<rparr>)
                                   (groups st1),
                    next_item := next_item st1 + 1 \<rparr>))"

text \<open>
  What can happen to a queue: the function for message checks is set, an item is
  enqueued, the call of a running attempt finishes, a retry timer fires.
\<close>

datatype queue_event =
    SetProcessMessagesFn
  | EnqueueMessageCheck string
  | EnqueueTask string string
  | Completes nat "bool outcome"
  | TimerFires nat

fun step :: "queue_state \<Rightarrow> queue_event \<Rightarrow> queue_state" where
  "step st SetProcessMessagesFn = st\<lparr> processMessagesFn := True \<rparr>"
| "step st (EnqueueMessageCheck groupJid) = enqueueMessageCheck st groupJid"
| "step st (EnqueueTask groupJid tid) = enqueueTask st groupJid tid"
| "step st (Completes i outcome) =
     (if i < length (running st)
      then (case running st ! i of
              (k, item, attempt) \<Rightarrow>
                after_release (finish_attempt (st\<lparr> running := drop_nth i (running st) \<rparr>)
                                 k item attempt outcome))
      else st)"
| "step st (TimerFires i) =
     (if i < length (timers st)
      then (case timers st ! i of
              (delay, k, item, attempt) \<Rightarrow>
                after_release (begin_attempt (st\<lparr> timers := drop_nth i (timers st) \<rparr>)
                                 k item attempt))
      else st)"

definition run_queue :: "queue_state \<Rightarrow> queue_event list \<Rightarrow> queue_state" where
  "run_queue st evs = foldl step st evs"

text \<open>The two sides of the exclusivity invariant, and the work of a group that is in
  flight: its running attempts and its pending retries.\<close>

definition processing_count :: "queue_state \<Rightarrow> int" where
  "processing_count st = int (length (filter (\<lambda>(k, g). processing g) (groups st)))"

definition in_flight :: "queue_state \<Rightarrow> string \<Rightarrow> nat list" where
  "in_flight st k =
     map (\<lambda>(k', item, attempt). item_id item) (filter (\<lambda>(k', item, attempt). k' = k) (running st))
     @ map (\<lambda>(delay, k', item, attempt). item_id item)
         (filter (\<lambda>(delay, k', item, attempt). k' = k) (timers st))"

section \<open>Scenarios\<close>

text \<open>A host whose only paths are \<open>/home/u/.ssh\<close>, \<open>/home/u/work\<close> and \<open>/home/user2\<close>, none of
  them a symlink, and which holds no readable file.\<close>

definition home_realpath :: "string \<Rightarrow> string option" where
  "home_realpath p =
     (if p = ''/home/u/.ssh'' \<or> p = ''/home/u/work'' \<or> p = ''/home/user2'' then Some p else None)"

definition no_listing :: "string \<Rightarrow> string list option" where
  "no_listing p = None"

definition no_file :: "string \<Rightarrow> string option" where
  "no_file p = None"

definition never :: "string \<Rightarrow> bool" where
  "never p = False"

definition home_fs :: filesystem where
  "home_fs = \<lparr> realpathSync = home_realpath, readdirSync = no_listing, readFileSync = no_file,
               isDirectory = never, unlink_fails = never \<rparr>"

definition no_json :: "string \<Rightarrow> json option" where
  "no_json raw = None"

definition ssh_mount :: mount where
  "ssh_mount = \<lparr> host_path = ''/home/u/.ssh'', container_path = ''/mnt/k'' \<rparr>"

definition home_u_allowlist :: allowlist where
  "home_u_allowlist = \<lparr> allowed_roots = [''/home/u''], blocked_patterns = Some (JArr (map JStr [])) \<rparr>"

definition user2_mount :: mount where
  "user2_mount = \<lparr> host_path = ''/home/user2'', container_path = ''/mnt/k'' \<rparr>"

definition home_user_allowlist :: allowlist where
  "home_user_allowlist = \<lparr> allowed_roots = [''/home/user''], blocked_patterns = Some (JArr []) \<rparr>"

definition work_mount :: mount where
  "work_mount = \<lparr> host_path = ''/home/u/work'', container_path = ''/mnt/w'' \<rparr>"

text \<open>An allowlist whose user patterns are the empty string and \<open>work\<close>.\<close>

definition empty_pattern_allowlist :: allowlist where
  "empty_pattern_allowlist =
     \<lparr> allowed_roots = [''/home/u''], blocked_patterns = Some (JArr [JStr [], JStr ''work'']) \<rparr>"

text \<open>A queue with room for five containers and a function for message checks that
  throws an \<open>Error\<close>: one message check for group \<open>g\<close> fails once; it fails a second time
  when its retry runs; and, with a second message check queued behind it, its retry starts
  while the second one is running.\<close>

definition check_item :: queue_item where
  "check_item = \<lparr> item_id = 0, has_fn = False, taskId = None \<rparr>"

definition second_item :: queue_item where
  "second_item = \<lparr> item_id = 1, has_fn = False, taskId = None \<rparr>"

definition boom :: js_value where
  "boom = new_Error ''boom''"

definition always_throws :: "nat \<Rightarrow> bool outcome" where
  "always_throws k = Threw boom"

definition one_failure :: "queue_event list" where
  "one_failure = [SetProcessMessagesFn, EnqueueMessageCheck ''g'', Completes 0 (Threw boom)]"

definition two_failures :: "queue_event list" where
  "two_failures = one_failure @ [TimerFires 0, Completes 0 (Threw boom)]"

text \<open>With no function for message checks set at all, the attempt throws at once; here
  is one message check and the firing of its first retry.\<close>

definition bare_retry :: "queue_event list" where
  "bare_retry = [EnqueueMessageCheck ''g'', TimerFires 0]"

definition overlap :: "queue_event list" where
  "overlap = [SetProcessMessagesFn, EnqueueMessageCheck ''g'', EnqueueMessageCheck ''g'',
              Completes 0 (Threw boom), TimerFires 0]"

text \<open>
  The config of a queue built by \<open>new_queue 5\<close>, and a config written out by hand, with
  no logger in it. A task for group \<open>g\<close>, and a function that rejects with \<open>null\<close>; \<open>task_failure\<close> is a
  task whose first attempt fails, \<open>null_failure\<close> a message check whose first attempt
  rejects with \<open>null\<close>.
\<close>

definition config5 :: queue_config where
  "config5 = \<lparr> maxConcurrentContainers = 5, logger = Some createLogger \<rparr>"

definition bare_config :: queue_config where
  "bare_config = \<lparr> maxConcurrentContainers = 5, logger = None \<rparr>"

definition task_item :: queue_item where
  "task_item = \<lparr> item_id = 0, has_fn = True, taskId = Some ''t1'' \<rparr>"

definition rejects_null :: "nat \<Rightarrow> bool outcome" where
  "rejects_null k = Threw (Val JNull)"

definition task_failure :: "queue_event list" where
  "task_failure = [EnqueueTask ''g'' ''t1'', Completes 0 (Threw boom)]"

definition null_failure :: "queue_event list" where
  "null_failure =
     [SetProcessMessagesFn, EnqueueMessageCheck ''g'', Completes 0 (Threw (Val JNull))]"

text \<open>
  Scenario S1: a container whose agent writes one output. The JSON text is the agent's
  \<open>JSON.stringify\<close> of the output, and \<open>JSON.parse\<close> gives the output back. In scenario S2
  the same frame arrives in three chunks, split inside the markers.
\<close>

definition ok_output :: json where
  "ok_output =
     JObj [(''status'', JStr ''success''), (''result'', JStr ''ok''), (''newSessionId'', JStr ''s1'')]"

definition ok_json :: string where
  \<open>ok_json = ''{"status":"success","result":"ok","newSessionId":"s1"}''\<close>

definition demo_stringify :: "json \<Rightarrow> string" where
  "demo_stringify out = ok_json"

definition demo_parse :: "string \<Rightarrow> json option" where
  "demo_parse s = (if s = ok_json then Some ok_output else None)"

definition split_chunks :: "string list" where
  "split_chunks =
     [''\<newline>---JSCLAW_OUT'', ''PUT_START---\<newline>'' @ ok_json @ ''\<newline>---JSCLAW_OUTPUT'',
      ''_END---\<newline>'']"

text \<open>
  Runs of a container under a config with the console logger, a timeout of 200 ms (a
  natural number, rendered in decimal digits) and the default size limit. \<open>frame\<close> is the
  frame around a JSON text. Three more JSON texts, with the values \<open>JSON.parse\<close> gives for
  them: a later output, an output whose result is the empty string, and \<open>null\<close>.
\<close>

definition demo_config :: "nat runner_config" where
  "demo_config =
     \<lparr> containerTimeout = 200, maxOutputSize = 10485760, runner_logger = createLogger \<rparr>"

definition later_output :: json where
  "later_output = JObj [(''status'', JStr ''success''), (''result'', JStr ''later'')]"

definition later_json :: string where
  \<open>later_json = ''{"status":"success","result":"later"}''\<close>

definition empty_output :: json where
  "empty_output =
     JObj [(''status'', JStr ''success''), (''result'', JStr []), (''newSessionId'', JStr ''s2'')]"

definition empty_json :: string where
  \<open>empty_json = ''{"status":"success","result":"","newSessionId":"s2"}''\<close>

definition runner_parse :: "string \<Rightarrow> json option" where
  "runner_parse s =
     (if s = ok_json then Some ok_output
      else if s = later_json then Some later_output
      else if s = empty_json then Some empty_output
      else if s = ''null'' then Some JNull
      else None)"

definition frame :: "string \<Rightarrow> string" where
  "frame jsonStr = writeOutput (\<lambda>t. t) jsonStr"

definition first_part :: string where
  "first_part = take 40 (frame ok_json)"

definition second_part :: string where
  "second_part = drop 40 (frame ok_json)"







text \<open>
  With an \<open>onOutput\<close> callback, two frames arrive in one chunk: in \<open>race_run\<close> nothing else
  happens before the child closes, so the call of \<open>onOutput\<close> for the first output is still
  awaited then; in \<open>lost_run\<close> that call rejects with \<open>null\<close>.
\<close>

definition race_run :: "runner_event list" where
  "race_run = [StdoutData (frame ok_json @ frame later_json)]"

definition lost_run :: "runner_event list" where
  "lost_run = [StdoutData (frame ok_json @ frame later_json), OutputDone 0 (Threw (Val JNull))]"

text \<open>
  An IPC tree with one group directory \<open>g1\<close>, whose messages mailbox holds two messages
  (the first names the chat \<open>j2\<close> as its target, the second names none), a temporary file,
  a file that is not JSON and a file that is no \<open>.json\<close> file. The second message cannot be
  removed. \<open>JSON.parse\<close> is given by what it returns on the contents of these files.
\<close>

definition mail_listing :: "string \<Rightarrow> string list option" where
  "mail_listing p =
     (if p = ''/data/ipc'' then Some [''g1'', ''README'']
      else if p = ''/data/ipc/g1/messages''
      then Some [''2-b.json'', ''1-a.json'', ''.3-c.json.tmp'', ''4-bad.json'', ''notes.txt'']
      else if p = ''/data/ipc/g1/tasks'' then Some []
      else None)"

definition mail_files :: "string \<Rightarrow> string option" where
  "mail_files p =
     (if p = ''/data/ipc/g1/messages/1-a.json'' then Some ''m1''
      else if p = ''/data/ipc/g1/messages/2-b.json'' then Some ''m2''
      else if p = ''/data/ipc/g1/messages/.3-c.json.tmp'' then Some ''m3''
      else if p = ''/data/ipc/g1/messages/4-bad.json'' then Some ''{''
      else if p = ''/data/ipc/g1/messages/notes.txt'' then Some ''m2''
      else None)"

definition mail_dirs :: "string \<Rightarrow> bool" where
  "mail_dirs p = (p = ''/data/ipc/g1'')"

definition mail_locked :: "string \<Rightarrow> bool" where
  "mail_locked p = (p = ''/data/ipc/g1/messages/2-b.json'')"

definition mail_fs :: filesystem where
  "mail_fs = \<lparr> realpathSync = no_file, readdirSync = mail_listing, readFileSync = mail_files,
               isDirectory = mail_dirs, unlink_fails = mail_locked \<rparr>"

definition mail_fs_after :: filesystem where
  "mail_fs_after =
     mail_fs\<lparr> readFileSync := (readFileSync mail_fs)(''/data/ipc/g1/messages/1-a.json'' := None) \<rparr>"

definition cross_message :: json where
  "cross_message = JObj [(''text'', JStr ''hello''), (''targetJid'', JStr ''j2'')]"

definition plain_message :: json where
  "plain_message = JObj [(''text'', JStr ''hi'')]"

definition mail_parse :: "string \<Rightarrow> json option" where
  "mail_parse raw =
     (if raw = ''m1'' then Some cross_message
      else if raw = ''m2'' then Some plain_message
      else None)"





text \<open>Collaborators that never throw, once with only another group registered (folder
  \<open>g2\<close>, chat \<open>j2\<close>), once with the group of folder \<open>g1\<close> registered too (chat \<open>j1\<close>).\<close>

definition delivers :: "json \<Rightarrow> json \<Rightarrow> json option \<Rightarrow> bool" where
  "delivers j t s = True"

definition handles :: "json \<Rightarrow> json \<Rightarrow> string \<Rightarrow> bool \<Rightarrow> bool" where
  "handles ty payload gf isMain = True"

definition other_group :: registered_group where
  "other_group = \<lparr> jid = ''j2'', name = ''Group 2'', folder = ''g2'' \<rparr>"

definition own_group :: registered_group where
  "own_group = \<lparr> jid = ''j1'', name = ''Group 1'', folder = ''g1'' \<rparr>"

definition unregistered_deps :: ipc_deps where
  "unregistered_deps =
     \<lparr> getRegisteredGroups = [other_group], sendMessage = delivers, onTask = handles \<rparr>"

definition registered_deps :: ipc_deps where
  "registered_deps =
     \<lparr> getRegisteredGroups = [own_group, other_group], sendMessage = delivers, onTask = handles \<rparr>"

section \<open>Mount security: what is proved\<close>

lemma find_app:
  "find P (xs @ ys) = (case find P xs of None \<Rightarrow> find P ys | Some x \<Rightarrow> Some x)"
  by (induction xs) auto

lemma first_blocked_strings:
  "first_blocked n (map JStr ps) = Inr (find (\<lambda>q. includes_str n (toLowerCase q)) ps)"
  by (induction ps) auto

lemma matchesBlocked_strings:
  "matchesBlocked p (Some (JArr (map JStr pats))) =
     Inr (find (\<lambda>q. includes_str (toLowerCase (normalize p)) (toLowerCase q))
            (DEFAULT_BLOCKED_PATTERNS @ pats))"
  by (simp add: matchesBlocked_def first_blocked_strings flip: map_append)

lemma default_patterns_nonempty: "[] \<notin> set DEFAULT_BLOCKED_PATTERNS"
  by (simp add: DEFAULT_BLOCKED_PATTERNS_def)

lemma find_first_match:
  assumes "pat \<in> set xs" "P pat"
  shows "\<exists>q. find P xs = Some q \<and> q \<in> set xs \<and> P q"
  using assms by (cases "find P xs") (auto simp: find_None_iff find_Some_iff)

text \<open>
  What \<open>validateMount\<close> does with a blocked path. When the container path is well formed
  and the host path resolves to \<open>p\<close>, and the normalised, lower-cased \<open>p\<close> contains a
  built-in pattern, or a user pattern while no user pattern is empty, the mount is rejected
  and the reason quotes the first pattern (built-in ones first) that matches, and \<open>p\<close>.
\<close>

lemma validateMount_blocked:
  assumes cp: "\<not> includes_str (container_path m) ''..''" "startsWith (container_path m) ''/''"
    and rp: "realpathSync fs (host_path m) = Some p"
    and bp: "blocked_patterns al = Some (JArr (map JStr pats))"
    and pat: "pat \<in> set DEFAULT_BLOCKED_PATTERNS \<or> (pat \<in> set pats \<and> [] \<notin> set pats)"
    and inc: "includes_str (toLowerCase (normalize p)) (toLowerCase pat)"
  shows "\<exists>q. find (\<lambda>q. includes_str (toLowerCase (normalize p)) (toLowerCase q))
                 (DEFAULT_BLOCKED_PATTERNS @ pats) = Some q
             \<and> validateMount fs m isMain al =
                 Inr \<lparr> valid = False,
                       reason = Some (''Path matches blocked pattern '' @ [CHR 0x27] @ q @ [CHR 0x27]
                                      @ '': '' @ p) \<rparr>"
proof -
  let ?P = "\<lambda>q. includes_str (toLowerCase (normalize p)) (toLowerCase q)"
  have "\<exists>q. find ?P (DEFAULT_BLOCKED_PATTERNS @ pats) = Some q \<and> q \<noteq> []"
  proof (cases "pat \<in> set DEFAULT_BLOCKED_PATTERNS")
    case True
    from find_first_match [OF True, of ?P] inc
    obtain q where "find ?P DEFAULT_BLOCKED_PATTERNS = Some q" "q \<in> set DEFAULT_BLOCKED_PATTERNS"
      by auto
    then show ?thesis
      using default_patterns_nonempty by (auto simp: find_app)
  next
    case False
    with pat have "pat \<in> set (DEFAULT_BLOCKED_PATTERNS @ pats)" "[] \<notin> set pats" by auto
    from find_first_match [OF this(1), of ?P] inc
    obtain q where "find ?P (DEFAULT_BLOCKED_PATTERNS @ pats) = Some q"
      "q \<in> set (DEFAULT_BLOCKED_PATTERNS @ pats)" by auto
    then show ?thesis
      using default_patterns_nonempty \<open>[] \<notin> set pats\<close> by auto
  qed
  then obtain q where q: "find ?P (DEFAULT_BLOCKED_PATTERNS @ pats) = Some q" "q \<noteq> []"
    by blast
  then have "validateMount fs m isMain al =
     Inr \<lparr> valid = False,
           reason = Some (''Path matches blocked pattern '' @ [CHR 0x27] @ q @ [CHR 0x27] @ '': '' @ p) \<rparr>"
    using cp rp bp by (simp add: validateMount_def matchesBlocked_strings)
  with q show ?thesis by blast
qed

text \<open>Scenario S7: \<open>/home/u/.ssh\<close> under the allowlist \<open>{allowed_roots: ["/home/u"]}\<close> is
  rejected, and the reason names \<open>.ssh\<close>.\<close>

lemma validateMount_ssh:
  "validateMount home_fs ssh_mount False home_u_allowlist =
     Inr \<lparr> valid = False,
           reason = Some (''Path matches blocked pattern '' @ [CHR 0x27] @ ''.ssh'' @ [CHR 0x27]
                          @ '': /home/u/.ssh'') \<rparr>"
proof -
  have f: "find (\<lambda>q. includes_str (toLowerCase (normalize ''/home/u/.ssh'')) (toLowerCase q))
                 (DEFAULT_BLOCKED_PATTERNS @ []) = Some ''.ssh''"
    by code_simp
  have h: "\<not> includes_str (container_path ssh_mount) ''..''"
    "startsWith (container_path ssh_mount) ''/''"
    "realpathSync home_fs (host_path ssh_mount) = Some ''/home/u/.ssh''"
    "blocked_patterns home_u_allowlist = Some (JArr (map JStr []))"
    "''.ssh'' \<in> set DEFAULT_BLOCKED_PATTERNS \<or> (''.ssh'' \<in> set [] \<and> [] \<notin> set ([] :: string list))"
    "includes_str (toLowerCase (normalize ''/home/u/.ssh'')) (toLowerCase ''.ssh'')"
    by code_simp+
  from validateMount_blocked [where m = ssh_mount and fs = home_fs
      and p = "''/home/u/.ssh''" and al = home_u_allowlist and pats = "[]" and pat = "''.ssh''"
      and isMain = False, OF h] f
  show ?thesis by auto
qed

text \<open>
  C5 (the code departs from the claim). \<open>matchesBlocked\<close> returns the matched pattern, and
  \<open>validateMount\<close> tests that string for truthiness. The empty pattern matches every path
  and is falsy: with the user patterns \<open>""\<close> and \<open>work\<close>, the path \<open>/home/u/work\<close> contains
  a user-supplied pattern and is accepted all the same.
\<close>

theorem validateMount_empty_pattern_accepts:
  "realpathSync home_fs (host_path work_mount) = Some ''/home/u/work''
   \<and> includes_str (toLowerCase ''/home/u/work'') (toLowerCase ''work'')
   \<and> matchesBlocked ''/home/u/work'' (blocked_patterns empty_pattern_allowlist) = Inr (Some [])
   \<and> validateMount home_fs work_mount False empty_pattern_allowlist =
       Inr \<lparr> valid = True, reason = None \<rparr>"
  by code_simp

text \<open>When does the allowlist fail to load: the file cannot be read, it is not JSON, or no
  property \<open>allowed_roots\<close> of it holds an array.\<close>

lemma loadMountAllowlist_fails:
  "readFileSync fs path = None \<Longrightarrow> loadMountAllowlist fs JSON_parse cwd path = None"
  "readFileSync fs path = Some raw \<Longrightarrow> JSON_parse raw = None \<Longrightarrow>
     loadMountAllowlist fs JSON_parse cwd path = None"
  "readFileSync fs path = Some raw \<Longrightarrow> JSON_parse raw = Some parsed \<Longrightarrow>
     (\<forall>roots. get_prop parsed ''allowed_roots'' \<noteq> Some (JArr roots)) \<Longrightarrow>
     loadMountAllowlist fs JSON_parse cwd path = None"
  by (auto simp: loadMountAllowlist_def split: option.splits json.splits)

text \<open>
  C4, as the claim states it, fails on the empty list: \<open>validateAdditionalMounts\<close> returns
  \<open>{valid: true, errors: []}\<close> for it before it looks at the allowlist path.
\<close>

theorem validateAdditionalMounts_empty_counterexample:
  "validateAdditionalMounts home_fs no_json ''/'' (Some []) ''g1'' False None =
     Inr \<lparr> all_valid = True, errors = [] \<rparr>"
  by (simp add: validateAdditionalMounts_def)

text \<open>
  C4 (amended). With no allowlist path (\<open>undefined\<close> or the empty string), or with a path
  whose file \<open>loadMountAllowlist\<close> cannot load, \<open>validateAdditionalMounts\<close> returns, for
  every group name and every \<open>isMain\<close>: \<open>valid: true\<close> with no errors when \<open>mounts\<close> is absent
  or empty, and otherwise \<open>valid: false\<close> with the one error that says which of the two
  happened. It never throws there.
\<close>

theorem validateAdditionalMounts_missing_allowlist:
  assumes "allowlistPath = None \<or> allowlistPath = Some []
           \<or> (\<exists>path. allowlistPath = Some path \<and> loadMountAllowlist fs JSON_parse cwd path = None)"
  shows "validateAdditionalMounts fs JSON_parse cwd mounts groupName isMain allowlistPath =
         (if mounts = None \<or> mounts = Some [] then Inr \<lparr> all_valid = True, errors = [] \<rparr>
          else if allowlistPath = None \<or> allowlistPath = Some []
          then Inr \<lparr> all_valid = False,
                     errors = [''No mount allowlist configured. All additional mounts are blocked.''] \<rparr>
          else Inr \<lparr> all_valid = False,
                     errors = [''Failed to load mount allowlist from: '' @ the allowlistPath] \<rparr>)"
  using assms by (auto simp: validateAdditionalMounts_def)

theorem validateAdditionalMounts_missing_allowlist_witness:
  "validateAdditionalMounts home_fs no_json ''/'' (Some [ssh_mount]) ''g1'' False None =
     Inr \<lparr> all_valid = False,
           errors = [''No mount allowlist configured. All additional mounts are blocked.''] \<rparr>
   \<and> validateAdditionalMounts home_fs no_json ''/'' (Some [ssh_mount]) ''g1'' False
         (Some ''/etc/allow.json'') =
     Inr \<lparr> all_valid = False,
           errors = [''Failed to load mount allowlist from: /etc/allow.json''] \<rparr>"
proof -
  have l: "loadMountAllowlist home_fs no_json ''/'' ''/etc/allow.json'' = None"
    by (simp add: loadMountAllowlist_def home_fs_def no_file_def)
  show ?thesis
    using validateAdditionalMounts_missing_allowlist
            [of None home_fs no_json "''/''" "Some [ssh_mount]" "''g1''" False]
          validateAdditionalMounts_missing_allowlist
            [of "Some ''/etc/allow.json''" home_fs no_json "''/''" "Some [ssh_mount]" "''g1''" False]
          l
    by simp
qed

text \<open>
  C10. Let the host path of a mount resolve to \<open>p\<close>. If \<open>validateMount\<close> accepts the
  mount, then \<open>p\<close> is one of the allowed roots or begins with one of them followed by
  \<open>/\<close>. If \<open>p\<close> is neither, for every root, the mount is rejected, and when the checks that
  come first pass (the container path is well formed and no blocked pattern is reported)
  the reason is that the path is not under any allowed root.
\<close>

theorem validateMount_allowed_root:
  assumes rp: "realpathSync fs (host_path m) = Some p"
    and res: "validateMount fs m isMain al = Inr r"
  shows "(valid r \<longrightarrow> (\<exists>root \<in> set (allowed_roots al). p = root \<or> prefix (root @ ''/'') p))
       \<and> ((\<forall>root \<in> set (allowed_roots al). p \<noteq> root \<and> \<not> prefix (root @ ''/'') p) \<longrightarrow>
            \<not> valid r
            \<and> (\<not> includes_str (container_path m) ''..'' \<and> startsWith (container_path m) ''/''
                \<and> matchesBlocked p (blocked_patterns al) \<in> {Inr None, Inr (Some [])}
                \<longrightarrow> reason r = Some (''Path not under any allowed root: '' @ p)))"
  using assms
  by (auto simp: validateMount_def list_ex_iff startsWith_def split: if_splits sum.splits)

lemma validateMount_user2:
  "validateMount home_fs user2_mount False home_user_allowlist =
     Inr \<lparr> valid = False, reason = Some ''Path not under any allowed root: /home/user2'' \<rparr>"
  by code_simp

text \<open>The example of C10: \<open>/home/user2\<close> has the root \<open>/home/user\<close> as a string prefix and
  is rejected as not under any allowed root.\<close>

theorem validateMount_allowed_root_witness:
  "prefix ''/home/user'' ''/home/user2''
   \<and> allowed_roots home_user_allowlist = [''/home/user'']
   \<and> validateMount home_fs user2_mount False home_user_allowlist =
       Inr \<lparr> valid = False, reason = Some ''Path not under any allowed root: /home/user2'' \<rparr>"
proof -
  have rp: "realpathSync home_fs (host_path user2_mount) = Some ''/home/user2''"
    by (simp add: home_fs_def home_realpath_def user2_mount_def)
  have no: "\<forall>root \<in> set (allowed_roots home_user_allowlist).
         ''/home/user2'' \<noteq> root \<and> \<not> prefix (root @ ''/'') ''/home/user2''"
    by (simp add: home_user_allowlist_def)
  have pre: "prefix ''/home/user'' ''/home/user2''" by simp
  have cp: "\<not> includes_str (container_path user2_mount) ''..''
      \<and> startsWith (container_path user2_mount) ''/''
      \<and> matchesBlocked ''/home/user2'' (blocked_patterns home_user_allowlist)
          \<in> {Inr None, Inr (Some [])}"
    by code_simp
  obtain r where r: "validateMount home_fs user2_mount False home_user_allowlist = Inr r"
    using validateMount_user2 by blast
  from validateMount_allowed_root [OF rp r] no cp
  have "\<not> valid r" "reason r = Some (''Path not under any allowed root: '' @ ''/home/user2'')"
    by blast+
  with r have "validateMount home_fs user2_mount False home_user_allowlist =
       Inr \<lparr> valid = False, reason = Some ''Path not under any allowed root: /home/user2'' \<rparr>"
    by (cases r) simp
  with pre show ?thesis by (simp add: home_user_allowlist_def)
qed

section \<open>Group queue: what is proved\<close>

lemmas queue_simps = run_queue_def new_queue_def GroupQueue_def createConfig_def DEFAULTS_def
  createLogger_def log_caught_def log_call_def nullish_def boom_def new_Error_def config5_def
  enqueueMessageCheck_def enqueueTask_def
  getGroup_def upd_group_def finish_attempt_def begin_attempt_def after_release_def drop_nth_def
  attempt_verdict_def releases_slot_def MAX_RETRIES_def BASE_RETRY_DELAY_def Let_def drain.simps

lemma proj_release [simp]:
  "attempts_made ((if b then [Release] else []) @ as) = attempts_made as"
  "retry_delays ((if b then [Release] else []) @ as) = retry_delays as"
  "settlements ((if b then [Release] else []) @ as) = settlements as"
  "attempts_made (if b then [Release] else []) = []"
  "retry_delays (if b then [Release] else []) = []"
  "settlements (if b then [Release] else []) = []"
  by auto

lemma processItem_throw_retry:
  "fn attempt = Threw err \<Longrightarrow> attempt < MAX_RETRIES \<Longrightarrow> log_caught lg warn_returns err \<Longrightarrow>
   processItem lg item fn attempt =
     Call attempt # SetTimeout (BASE_RETRY_DELAY * 2 ^ attempt)
       # (if releases_slot item attempt then [Release] else [])
       @ processItem lg item fn (attempt + 1)"
  by (subst processItem.simps) (simp add: attempt_verdict_def)

lemma processItem_throw_last:
  "fn attempt = Threw err \<Longrightarrow> \<not> attempt < MAX_RETRIES \<Longrightarrow> log_caught lg error_returns err \<Longrightarrow>
   processItem lg item fn attempt =
     Call attempt # Rejected err # (if releases_slot item attempt then [Release] else [])"
  by (subst processItem.simps) (simp add: attempt_verdict_def)

lemma processItem_return:
  "fn attempt = Returned r \<Longrightarrow>
   processItem lg item fn attempt =
     Call attempt # Resolved r # (if releases_slot item attempt then [Release] else [])"
  by (subst processItem.simps) (simp add: attempt_verdict_def)

lemma processItem_escape:
  "fn attempt = Threw err \<Longrightarrow>
   \<not> log_caught lg (if attempt < MAX_RETRIES then warn_returns else error_returns) err \<Longrightarrow>
   processItem lg item fn attempt =
     Call attempt # (if releases_slot item attempt then [Release] else []) @ [Unhandled]"
  by (subst processItem.simps) (cases "attempt < MAX_RETRIES"; simp add: attempt_verdict_def)

text \<open>From attempt \<open>a\<close> on, an item makes the attempts \<open>a, \<dots>, a + n\<close> for some \<open>n\<close> with
  \<open>a + n \<le> 5\<close>, and the retry after attempt \<open>k\<close> is scheduled \<open>5000 \<cdot> 2\<^sup>k\<close> ms later: whatever
  the calls and the logger do, no item is attempted more than six times.\<close>

lemma processItem_shape:
  "attempt \<le> MAX_RETRIES \<Longrightarrow>
   \<exists>n. attempt + n \<le> MAX_RETRIES
     \<and> attempts_made (processItem lg item fn attempt) = [attempt..<attempt + n + 1]
     \<and> retry_delays (processItem lg item fn attempt) =
          map (\<lambda>k. BASE_RETRY_DELAY * 2 ^ k) [attempt..<attempt + n]"
proof (induction lg item fn attempt rule: processItem.induct)
  case (1 lg item fn attempt)
  show ?case
  proof (cases "fn attempt")
    case (Returned r)
    then show ?thesis using "1.prems"
      by (intro exI [of _ 0]) (simp add: processItem_return)
  next
    case (Threw err)
    show ?thesis
    proof (cases "log_caught lg (if attempt < MAX_RETRIES then warn_returns else error_returns) err")
      case False
      then show ?thesis using Threw "1.prems"
        by (intro exI [of _ 0]) (simp add: processItem_escape)
    next
      case logged: True
      show ?thesis
      proof (cases "attempt < MAX_RETRIES")
        case True
        with logged have lw: "log_caught lg warn_returns err" by simp
        then have v: "attempt_verdict lg attempt (fn attempt) = Retry (BASE_RETRY_DELAY * 2 ^ attempt)"
          using Threw True by (simp add: attempt_verdict_def)
        from "1.IH" [OF v] True obtain n where n: "attempt + 1 + n \<le> MAX_RETRIES"
          "attempts_made (processItem lg item fn (attempt + 1)) = [attempt + 1..<attempt + 1 + n + 1]"
          "retry_delays (processItem lg item fn (attempt + 1)) =
             map (\<lambda>k. BASE_RETRY_DELAY * 2 ^ k) [attempt + 1..<attempt + 1 + n]"
          by auto
        note unfolded = processItem_throw_retry [where fn = fn and attempt = attempt and err = err,
            OF Threw True lw]
        show ?thesis
        proof (intro exI [of _ "Suc n"] conjI)
          show "attempt + Suc n \<le> MAX_RETRIES" using n(1) by simp
          show "attempts_made (processItem lg item fn attempt) = [attempt..<attempt + Suc n + 1]"
            using n(2) by (simp add: unfolded upt_conv_Cons del: upt_Suc)
          show "retry_delays (processItem lg item fn attempt) =
                  map (\<lambda>k. BASE_RETRY_DELAY * 2 ^ k) [attempt..<attempt + Suc n]"
            using n(3) by (simp add: unfolded upt_conv_Cons del: upt_Suc)
        qed
      next
        case False
        with logged have "log_caught lg error_returns err" by simp
        then show ?thesis using Threw "1.prems" False
          by (intro exI [of _ 0]) (simp add: processItem_throw_last)
      qed
    qed
  qed
qed

text \<open>With a logger whose calls return, an item whose every attempt throws a value other
  than \<open>null\<close> and \<open>undefined\<close> goes through the whole schedule.\<close>

lemma processItem_all_fail:
  "attempt \<le> MAX_RETRIES \<Longrightarrow>
   \<forall>k. attempt \<le> k \<and> k \<le> MAX_RETRIES \<longrightarrow> (\<exists>err. fn k = Threw err \<and> \<not> nullish err) \<Longrightarrow>
   log_call lg warn_returns \<Longrightarrow> log_call lg error_returns \<Longrightarrow>
   attempts_made (processItem lg item fn attempt) = [attempt..<MAX_RETRIES + 1]
   \<and> retry_delays (processItem lg item fn attempt) =
        map (\<lambda>k. BASE_RETRY_DELAY * 2 ^ k) [attempt..<MAX_RETRIES]
   \<and> (\<exists>err. fn MAX_RETRIES = Threw err
          \<and> settlements (processItem lg item fn attempt) = [Rejected err])"
proof (induction lg item fn attempt rule: processItem.induct)
  case (1 lg item fn attempt)
  from "1.prems" obtain err where err: "fn attempt = Threw err" and nn: "\<not> nullish err" by auto
  from nn "1.prems"(3,4) have lw: "log_caught lg warn_returns err"
    and le: "log_caught lg error_returns err"
    by (simp_all add: log_caught_def)
  show ?case
  proof (cases "attempt < MAX_RETRIES")
    case True
    then have v: "attempt_verdict lg attempt (fn attempt) = Retry (BASE_RETRY_DELAY * 2 ^ attempt)"
      using err lw by (simp add: attempt_verdict_def)
    have "attempts_made (processItem lg item fn (attempt + 1)) = [attempt + 1..<MAX_RETRIES + 1]
      \<and> retry_delays (processItem lg item fn (attempt + 1)) =
           map (\<lambda>k. BASE_RETRY_DELAY * 2 ^ k) [attempt + 1..<MAX_RETRIES]
      \<and> (\<exists>err. fn MAX_RETRIES = Threw err
           \<and> settlements (processItem lg item fn (attempt + 1)) = [Rejected err])"
      using "1.IH" [OF v] True "1.prems"(2,3,4) by auto
    then show ?thesis
      using True
      by (simp add: processItem_throw_retry [where fn = fn and attempt = attempt and err = err,
              OF err True lw] upt_conv_Cons del: upt_Suc)
  next
    case False
    with "1.prems"(1) have eq: "attempt = MAX_RETRIES" by simp
    have u: "processItem lg item fn attempt =
               Call attempt # Rejected err # (if releases_slot item attempt then [Release] else [])"
      by (rule processItem_throw_last [where fn = fn and attempt = attempt and err = err,
            OF err False le])
    show ?thesis
      unfolding u using err eq by simp
  qed
qed

text \<open>
  With a logger whose calls return (the one \<open>createConfig\<close> gives is such a logger) and
  errors other than \<open>null\<close> and \<open>undefined\<close>, the schedule is the one of C6: an item whose
  every attempt fails makes the attempts \<open>0\<close> to \<open>5\<close>, its retries are scheduled 5000, 10000,
  20000, 40000 and 80000 ms after the failures, no retry follows attempt \<open>5\<close>, and the
  promise is rejected with the error of attempt \<open>5\<close>.
\<close>

lemma retry_schedule_logged:
  assumes "log_call lg warn_returns" and "log_call lg error_returns"
    and "\<forall>k \<le> 5. \<exists>err. fn k = Threw err \<and> \<not> nullish err"
  shows "attempts_made (processItem lg item fn 0) = [0, 1, 2, 3, 4, 5]
    \<and> retry_delays (processItem lg item fn 0) = [5000, 10000, 20000, 40000, 80000]
    \<and> (\<exists>err. fn 5 = Threw err \<and> settlements (processItem lg item fn 0) = [Rejected err])"
proof -
  have upt6: "[0..<6] = [0, 1, 2, 3, 4, 5::nat]" and upt5: "[0..<5] = [0, 1, 2, 3, 4::nat]"
    by code_simp+
  show ?thesis
    using processItem_all_fail [of 0 fn lg item] assms
    by (simp add: MAX_RETRIES_def BASE_RETRY_DELAY_def upt6 upt5 del: upt_Suc)
qed

lemma retry_schedule_default:
  "attempts_made (processItem (logger (createConfig (\<lambda>c. c))) check_item always_throws 0)
     = [0, 1, 2, 3, 4, 5]
   \<and> retry_delays (processItem (logger (createConfig (\<lambda>c. c))) check_item always_throws 0)
     = [5000, 10000, 20000, 40000, 80000]
   \<and> settlements (processItem (logger (createConfig (\<lambda>c. c))) check_item always_throws 0)
     = [Rejected boom]"
  using retry_schedule_logged [of "logger (createConfig (\<lambda>c. c))" always_throws check_item]
  by (simp add: always_throws_def createConfig_def DEFAULTS_def createLogger_def log_call_def
      boom_def new_Error_def nullish_def)

text \<open>In the queue's state, a failed attempt whose log call returns adds exactly the timer
  of the retry when \<open>k < 5\<close>, with the same delay; when \<open>k \<ge> 5\<close> it adds none and rejects the
  promise.\<close>

lemma finish_attempt_throw:
  "log_caught (queue_log st) warn_returns err \<Longrightarrow> log_caught (queue_log st) error_returns err \<Longrightarrow>
   timers (fst (finish_attempt st k item attempt (Threw err))) =
     (if attempt < 5 then timers st @ [(5000 * 2 ^ attempt, k, item, attempt + 1)] else timers st)"
  "log_caught (queue_log st) warn_returns err \<Longrightarrow> log_caught (queue_log st) error_returns err \<Longrightarrow>
   promises (fst (finish_attempt st k item attempt (Threw err))) =
     (if attempt < 5 then promises st else promises st @ [(item_id item, Failed err)])"
  by (simp_all add: finish_attempt_def attempt_verdict_def MAX_RETRIES_def BASE_RETRY_DELAY_def
      Let_def)

text \<open>
  C6 (the code departs from the claim). The \<open>catch\<close> block of \<open>_processItem\<close> calls the
  logger with \<open>err.message\<close> before it calls \<open>setTimeout\<close>. In a queue whose config holds no
  logger that call throws, and so it does when the function rejected with \<open>null\<close>: the
  item is attempted once, no retry is scheduled, and its promise is never settled,
  although its function keeps failing. A message check gives its slot back in the
  \<open>finally\<close> block; a task keeps the slot, and its group stays \<open>processing\<close>, for ever.
\<close>

theorem retry_lost_when_log_throws:
  "processItem (logger bare_config) check_item always_throws 0 = [Call 0, Release, Unhandled]
   \<and> processItem (logger bare_config) task_item always_throws 0 = [Call 0, Unhandled]
   \<and> processItem (logger (createConfig (\<lambda>c. c))) check_item rejects_null 0
       = [Call 0, Release, Unhandled]
   \<and> retry_delays (processItem (logger bare_config) check_item always_throws 0) = []
   \<and> settlements (processItem (logger bare_config) check_item always_throws 0) = []
   \<and> timers (run_queue (GroupQueue (Some bare_config)) one_failure) = []
   \<and> promises (run_queue (GroupQueue (Some bare_config)) one_failure) = []
   \<and> running (run_queue (GroupQueue (Some bare_config)) one_failure) = []
   \<and> unhandled (run_queue (GroupQueue (Some bare_config)) one_failure) = [0]
   \<and> timers (run_queue (GroupQueue (Some bare_config)) task_failure) = []
   \<and> promises (run_queue (GroupQueue (Some bare_config)) task_failure) = []
   \<and> map (\<lambda>(k, g). (k, processing g))
         (groups (run_queue (GroupQueue (Some bare_config)) task_failure)) = [(''g'', True)]
   \<and> activeCount (run_queue (GroupQueue (Some bare_config)) task_failure) = 1
   \<and> timers (run_queue (GroupQueue None) null_failure) = []
   \<and> promises (run_queue (GroupQueue None) null_failure) = []"
proof -
  have a: "processItem (logger bare_config) check_item always_throws 0 = [Call 0, Release, Unhandled]"
    by (subst processItem.simps)
       (simp add: attempt_verdict_def bare_config_def log_caught_def log_call_def always_throws_def
          MAX_RETRIES_def releases_slot_def check_item_def)
  have b: "processItem (logger bare_config) task_item always_throws 0 = [Call 0, Unhandled]"
    by (subst processItem.simps)
       (simp add: attempt_verdict_def bare_config_def log_caught_def log_call_def always_throws_def
          MAX_RETRIES_def releases_slot_def task_item_def)
  have c: "processItem (logger (createConfig (\<lambda>c. c))) check_item rejects_null 0
             = [Call 0, Release, Unhandled]"
    by (subst processItem.simps)
       (simp add: attempt_verdict_def log_caught_def nullish_def rejects_null_def
          MAX_RETRIES_def releases_slot_def check_item_def)
  have d: "run_queue (GroupQueue (Some bare_config)) one_failure =
     \<lparr> config = bare_config, queue_log = None,
       groups = [(''g'', \<lparr> state_jid = ''g'', process = None, containerName = None,
                           groupFolder = None, processing = False, queue = [] \<rparr>)],
       activeCount = 0, processMessagesFn = True, next_item = 1,
       running = [], timers = [], promises = [], unhandled = [0] \<rparr>"
    by (simp add: queue_simps one_failure_def bare_config_def)
  have e: "run_queue (GroupQueue (Some bare_config)) task_failure =
     \<lparr> config = bare_config, queue_log = None,
       groups = [(''g'', \<lparr> state_jid = ''g'', process = None, containerName = None,
                           groupFolder = None, processing = True, queue = [] \<rparr>)],
       activeCount = 1, processMessagesFn = False, next_item = 1,
       running = [], timers = [], promises = [], unhandled = [0] \<rparr>"
    by (simp add: queue_simps task_failure_def bare_config_def)
  have f: "run_queue (GroupQueue None) null_failure =
     \<lparr> config = createConfig (\<lambda>c. c), queue_log = Some createLogger,
       groups = [(''g'', \<lparr> state_jid = ''g'', process = None, containerName = None,
                           groupFolder = None, processing = False, queue = [] \<rparr>)],
       activeCount = 0, processMessagesFn = True, next_item = 1,
       running = [], timers = [], promises = [], unhandled = [0] \<rparr>"
    by (simp add: queue_simps null_failure_def)
  show ?thesis
    unfolding a b c d e f by simp
qed


text \<open>\<open>new GroupQueue()\<close> is the queue that \<open>new_queue 5\<close> builds: 5 is the default limit.\<close>

lemma default_queue: "GroupQueue None = new_queue 5"
  by (simp add: GroupQueue_def new_queue_def createConfig_def DEFAULTS_def)

lemma run_one_failure:
  "run_queue (new_queue 5) one_failure =
     \<lparr> config = config5, queue_log = Some createLogger,
       groups = [(''g'', \<lparr> state_jid = ''g'', process = None, containerName = None,
                           groupFolder = None, processing = False, queue = [] \<rparr>)],
       activeCount = 0, processMessagesFn = True, next_item = 1,
       running = [], timers = [(5000, ''g'', check_item, 1)], promises = [], unhandled = [] \<rparr>"
  by (simp add: queue_simps one_failure_def check_item_def)

lemma run_two_failures:
  "run_queue (new_queue 5) two_failures =
     \<lparr> config = config5, queue_log = Some createLogger,
       groups = [(''g'', \<lparr> state_jid = ''g'', process = None, containerName = None,
                           groupFolder = None, processing = False, queue = [] \<rparr>)],
       activeCount = - 1, processMessagesFn = True, next_item = 1,
       running = [], timers = [(10000, ''g'', check_item, 2)], promises = [], unhandled = [] \<rparr>"
proof -
  have "run_queue (new_queue 5) two_failures =
          run_queue (run_queue (new_queue 5) one_failure)
            [TimerFires 0, Completes 0 (Threw boom)]"
    by (simp add: run_queue_def two_failures_def)
  then show ?thesis
    unfolding run_one_failure by (simp add: queue_simps check_item_def)
qed

lemma run_overlap:
  "run_queue (new_queue 5) overlap =
     \<lparr> config = config5, queue_log = Some createLogger,
       groups = [(''g'', \<lparr> state_jid = ''g'', process = None, containerName = None,
                           groupFolder = None, processing = True, queue = [] \<rparr>)],
       activeCount = 1, processMessagesFn = True, next_item = 2,
       running = [(''g'', second_item, 0), (''g'', check_item, 1)], timers = [],
       promises = [], unhandled = [] \<rparr>"
  by (simp add: queue_simps overlap_def check_item_def second_item_def)

text \<open>
  C2 (the code departs from the claim). In a queue built from \<open>createConfig\<close>, a message
  check whose first attempt fails: the \<open>catch\<close> block logs, schedules the retry for 5000 ms
  later and returns, and the \<open>finally\<close> block then releases the slot, because the item
  carries no \<open>fn\<close>. During the backoff the retry is pending, the group is not processing
  and \<open>activeCount\<close> is back to 0.
\<close>

theorem backoff_releases_slot:
  "timers (run_queue (new_queue 5) one_failure) = [(5000, ''g'', check_item, 1)]
   \<and> map (\<lambda>(k, g). (k, processing g)) (groups (run_queue (new_queue 5) one_failure))
       = [(''g'', False)]
   \<and> activeCount (run_queue (new_queue 5) one_failure) = 0"
  unfolding run_one_failure by simp

lemma run_bare_retry:
  "run_queue (new_queue 5) bare_retry =
     \<lparr> config = config5, queue_log = Some createLogger,
       groups = [(''g'', \<lparr> state_jid = ''g'', process = None, containerName = None,
                           groupFolder = None, processing = False, queue = [] \<rparr>)],
       activeCount = - 1, processMessagesFn = False, next_item = 1,
       running = [], timers = [(10000, ''g'', check_item, 2)], promises = [], unhandled = [] \<rparr>"
  by (simp add: queue_simps bare_retry_def check_item_def)

text \<open>
  C3 (the code departs from the claim). The same release happens after every attempt of a
  message check. When the retry fails too, \<open>activeCount\<close> is \<open>-1\<close> while no group is
  processing, whether the function for message checks throws or is not set at all; and
  when a second message check waits behind the first, it is started during the backoff,
  so that the retry of the first runs beside it: group \<open>g\<close> has two items in flight.
\<close>

theorem exclusivity_broken:
  "activeCount (run_queue (new_queue 5) two_failures) = - 1
   \<and> processing_count (run_queue (new_queue 5) two_failures) = 0
   \<and> activeCount (run_queue (new_queue 5) bare_retry) = - 1
   \<and> processing_count (run_queue (new_queue 5) bare_retry) = 0
   \<and> in_flight (run_queue (new_queue 5) overlap) ''g'' = [1, 0]"
  unfolding run_two_failures run_overlap run_bare_retry
  by (simp add: processing_count_def in_flight_def second_item_def check_item_def)

section \<open>Container runner: what is proved\<close>

text \<open>A match that \<open>indexOf\<close> finds in a buffer is still the first match when more text
  is appended.\<close>

lemma indexOf_append:
  "indexOf b1 pat = Some i \<Longrightarrow> indexOf (b1 @ b2) pat = Some i"
proof (induction b1 arbitrary: i)
  case Nil
  then show ?case by (cases b2) (auto split: if_splits)
next
  case (Cons c cs)
  show ?case
  proof (cases "prefix pat (c # cs)")
    case True
    with Cons.prems prefix_prefix [of pat "c # cs" b2] show ?thesis by simp
  next
    case False
    with Cons.prems obtain j where j: "indexOf cs pat = Some j" "i = Suc j" by auto
    from indexOf_bound [OF j(1)] have "length pat \<le> length (c # cs)" by simp
    with False have "\<not> prefix pat ((c # cs) @ b2)"
      by (metis prefix_length_prefix prefixI append.assoc prefix_def)
    with Cons.IH [OF j(1)] j(2) show ?thesis by simp
  qed
qed

lemma indexOf_from_append:
  "indexOf_from b1 pat k = Some i \<Longrightarrow> k \<le> length b1 \<Longrightarrow> indexOf_from (b1 @ b2) pat k = Some i"
  by (auto simp: indexOf_from_def Let_def min_def dest: indexOf_append)

lemma parse_frames_append:
  "parse_frames P acc (b1 @ b2) =
     parse_frames P (fst (parse_frames P acc b1)) (snd (parse_frames P acc b1) @ b2)"
proof (induction P acc b1 rule: parse_frames.induct)
  case (1 P outputs remaining)
  show ?case
  proof (cases "indexOf remaining OUTPUT_START_MARKER")
    case None
    then show ?thesis by (simp add: parse_frames.simps [of P outputs remaining])
  next
    case (Some startIdx)
    let ?after = "startIdx + length OUTPUT_START_MARKER"
    from indexOf_bound [OF Some] have le: "?after \<le> length remaining" .
    show ?thesis
    proof (cases "indexOf_from remaining OUTPUT_END_MARKER ?after")
      case None
      with Some show ?thesis by (simp add: parse_frames.simps [of P outputs remaining])
    next
      case (Some endIdx)
      note e = this
      from indexOf_from_bound [OF e] have ele: "endIdx + length OUTPUT_END_MARKER \<le> length remaining" .
      have ge: "?after \<le> endIdx"
        using e le by (auto simp: indexOf_from_def Let_def min_def split: if_splits)
      have s1: "indexOf (remaining @ b2) OUTPUT_START_MARKER = Some startIdx"
        using \<open>indexOf remaining OUTPUT_START_MARKER = Some startIdx\<close> by (rule indexOf_append)
      have s2: "indexOf_from (remaining @ b2) OUTPUT_END_MARKER ?after = Some endIdx"
        using e le by (rule indexOf_from_append)
      have sl: "slice (remaining @ b2) ?after endIdx = slice remaining ?after endIdx"
        using ele ge by (simp add: slice_def)
      have step1: "parse_frames P outputs remaining =
        parse_frames P (outputs @ [frame_output P (trim (slice remaining ?after endIdx))])
          (drop (endIdx + length OUTPUT_END_MARKER) remaining)"
        using \<open>indexOf remaining OUTPUT_START_MARKER = Some startIdx\<close> e
        by (simp add: parse_frames.simps [of P outputs remaining] Let_def)
      have step2: "parse_frames P outputs (remaining @ b2) =
        parse_frames P (outputs @ [frame_output P (trim (slice remaining ?after endIdx))])
          (drop (endIdx + length OUTPUT_END_MARKER) remaining @ b2)"
        using s1 s2 sl ele
        by (simp add: parse_frames.simps [of P outputs "remaining @ b2"] Let_def)
      from "1.IH" [OF \<open>indexOf remaining OUTPUT_START_MARKER = Some startIdx\<close> refl e refl]
      show ?thesis
        unfolding step1 step2 .
    qed
  qed
qed

lemma parse_frames_prepend:
  "parse_frames P (a @ acc) s = (a @ fst (parse_frames P acc s), snd (parse_frames P acc s))"
proof (induction P acc s rule: parse_frames.induct)
  case (1 P outputs remaining)
  show ?case
  proof (cases "indexOf remaining OUTPUT_START_MARKER")
    case None
    then show ?thesis
      by (simp add: parse_frames.simps [of P _ remaining])
  next
    case (Some startIdx)
    note s = this
    show ?thesis
    proof (cases "indexOf_from remaining OUTPUT_END_MARKER (startIdx + length OUTPUT_START_MARKER)")
      case None
      with s show ?thesis by (simp add: parse_frames.simps [of P _ remaining])
    next
      case (Some endIdx)
      let ?o = "frame_output P (trim (slice remaining (startIdx + length OUTPUT_START_MARKER) endIdx))"
      let ?r = "drop (endIdx + length OUTPUT_END_MARKER) remaining"
      have a: "parse_frames P (a @ outputs) remaining = parse_frames P (a @ outputs @ [?o]) ?r"
        using s Some by (simp add: parse_frames.simps [of P "a @ outputs" remaining] Let_def)
      have b: "parse_frames P outputs remaining = parse_frames P (outputs @ [?o]) ?r"
        using s Some by (simp add: parse_frames.simps [of P outputs remaining] Let_def)
      show ?thesis
        unfolding a b by (rule "1.IH" [OF s refl Some refl])
    qed
  qed
qed

lemma parse_frames_acc:
  "parse_frames P acc s = (acc @ fst (parse_frames P [] s), snd (parse_frames P [] s))"
  using parse_frames_prepend [of P acc "[]" s] by simp

lemma parseContainerOutput_append:
  "parseContainerOutput P (b1 @ b2) =
     (fst (parseContainerOutput P b1) @ fst (parseContainerOutput P (snd (parseContainerOutput P b1) @ b2)),
      snd (parseContainerOutput P (snd (parseContainerOutput P b1) @ b2)))"
  unfolding parseContainerOutput_def
  by (subst parse_frames_append) (subst parse_frames_acc, simp)

lemma parse_frames_remainder:
  "parse_frames P [] (snd (parse_frames P acc s)) = ([], snd (parse_frames P acc s))"
proof (induction P acc s rule: parse_frames.induct)
  case (1 P outputs remaining)
  show ?case
  proof (cases "indexOf remaining OUTPUT_START_MARKER")
    case None
    then show ?thesis
      by (simp add: parse_frames.simps [of P _ remaining])
  next
    case (Some startIdx)
    note s = this
    show ?thesis
    proof (cases "indexOf_from remaining OUTPUT_END_MARKER (startIdx + length OUTPUT_START_MARKER)")
      case None
      with s show ?thesis by (simp add: parse_frames.simps [of P _ remaining])
    next
      case (Some endIdx)
      have b: "parse_frames P outputs remaining =
          parse_frames P (outputs @ [frame_output P (trim (slice remaining (startIdx + length OUTPUT_START_MARKER) endIdx))])
            (drop (endIdx + length OUTPUT_END_MARKER) remaining)"
        using s Some by (simp add: parse_frames.simps [of P outputs remaining] Let_def)
      show ?thesis
        unfolding b by (rule "1.IH" [OF s refl Some refl])
    qed
  qed
qed

lemma feed_chunks_concat:
  "parseContainerOutput P buf = ([], buf) \<Longrightarrow>
   feed_chunks P buf chunks = parseContainerOutput P (buf @ concat chunks)"
proof (induction chunks arbitrary: buf)
  case Nil
  then show ?case by simp
next
  case (Cons c cs)
  let ?p = "parseContainerOutput P (buf @ c)"
  have r: "parseContainerOutput P (snd ?p) = ([], snd ?p)"
    unfolding parseContainerOutput_def by (rule parse_frames_remainder)
  have "feed_chunks P buf (c # cs) = (fst ?p @ fst (feed_chunks P (snd ?p) cs), snd (feed_chunks P (snd ?p) cs))"
    by (simp add: Let_def)
  also have "feed_chunks P (snd ?p) cs = parseContainerOutput P (snd ?p @ concat cs)"
    by (rule Cons.IH [OF r])
  also have "(fst ?p @ fst (parseContainerOutput P (snd ?p @ concat cs)),
              snd (parseContainerOutput P (snd ?p @ concat cs)))
             = parseContainerOutput P ((buf @ c) @ concat cs)"
    by (rule parseContainerOutput_append [symmetric])
  finally show ?case by simp
qed


lemma indexOf_skip:
  "pat \<noteq> [] \<Longrightarrow> hd pat \<notin> set pre \<Longrightarrow>
   indexOf (pre @ ys) pat = map_option (\<lambda>i. length pre + i) (indexOf ys pat)"
proof (induction pre)
  case Nil
  then show ?case by (simp add: option.map_ident)
next
  case (Cons c pre)
  then have "\<not> prefix pat (c # pre @ ys)"
    by (cases pat) auto
  with Cons show ?case
    by (simp add: option.map_comp comp_def)
qed

lemma indexOf_here: "indexOf (pat @ ys) pat = Some 0"
proof (cases "pat @ ys")
  case Nil
  then show ?thesis by simp
next
  case (Cons a l)
  then have "prefix pat (a # l)" by (metis prefixI)
  with Cons show ?thesis by simp
qed

lemma indexOf_None_iff: "indexOf s pat = None \<longleftrightarrow> \<not> includes_str s pat"
  by (induction s) auto

lemma prefix_sep:
  "prefix pat (xs @ c # zs) \<Longrightarrow> c \<notin> set pat \<Longrightarrow> prefix pat xs"
  by (auto simp: prefix_append prefix_Cons)

lemma indexOf_sep:
  "c \<notin> set pat \<Longrightarrow> pat \<noteq> [] \<Longrightarrow> indexOf d pat = None \<Longrightarrow>
   indexOf (d @ c # zs) pat = map_option (\<lambda>j. length d + 1 + j) (indexOf zs pat)"
proof (induction d)
  case Nil
  then have "\<not> prefix pat (c # zs)" by (cases pat) auto
  then show ?case by (simp add: comp_def)
next
  case (Cons x d)
  from Cons.prems(3) have np: "\<not> prefix pat (x # d)" and none: "indexOf d pat = None"
    by (auto split: if_splits)
  have "\<not> prefix pat ((x # d) @ c # zs)"
    using np prefix_sep [OF _ Cons.prems(1)] by blast
  with Cons.IH [OF Cons.prems(1,2) none] show ?case
    by (simp add: option.map_comp comp_def)
qed

lemma marker_facts:
  "OUTPUT_START_MARKER \<noteq> []" "hd OUTPUT_START_MARKER = CHR ''-''"
  "OUTPUT_END_MARKER \<noteq> []" "hd OUTPUT_END_MARKER = CHR ''-''"
  "CHR ''\<newline>'' \<notin> set OUTPUT_END_MARKER"
  by (simp_all add: OUTPUT_START_MARKER_def OUTPUT_END_MARKER_def)

lemma parse_frames_frame:
  assumes pre: "CHR ''-'' \<notin> set pre"
    and d: "\<not> includes_str d OUTPUT_END_MARKER"
  shows "parse_frames P acc
           (pre @ ''\<newline>'' @ OUTPUT_START_MARKER @ ''\<newline>'' @ d @ ''\<newline>'' @ OUTPUT_END_MARKER @ rest)
         = parse_frames P (acc @ [frame_output P (trim (''\<newline>'' @ d @ ''\<newline>''))]) rest"
proof -
  let ?tail = "''\<newline>'' @ d @ ''\<newline>'' @ OUTPUT_END_MARKER @ rest"
  let ?s = "pre @ ''\<newline>'' @ OUTPUT_START_MARKER @ ?tail"
  let ?after = "length pre + 1 + length OUTPUT_START_MARKER"
  have "indexOf ((pre @ ''\<newline>'') @ OUTPUT_START_MARKER @ ?tail) OUTPUT_START_MARKER
          = map_option (\<lambda>i. length (pre @ ''\<newline>'') + i) (indexOf (OUTPUT_START_MARKER @ ?tail) OUTPUT_START_MARKER)"
    using pre by (intro indexOf_skip) (simp_all add: marker_facts)
  then have start: "indexOf ?s OUTPUT_START_MARKER = Some (length pre + 1)"
    by (simp add: indexOf_here)
  have dr: "drop ?after ?s = ?tail"
    by simp
  have "indexOf ([CHR ''\<newline>''] @ (d @ CHR ''\<newline>'' # (OUTPUT_END_MARKER @ rest))) OUTPUT_END_MARKER
      = map_option (\<lambda>i. length [CHR ''\<newline>''] + i)
          (indexOf (d @ CHR ''\<newline>'' # (OUTPUT_END_MARKER @ rest)) OUTPUT_END_MARKER)"
    by (intro indexOf_skip) (simp_all add: marker_facts)
  moreover have "indexOf (d @ CHR ''\<newline>'' # (OUTPUT_END_MARKER @ rest)) OUTPUT_END_MARKER
      = map_option (\<lambda>j. length d + 1 + j) (indexOf (OUTPUT_END_MARKER @ rest) OUTPUT_END_MARKER)"
    using d by (intro indexOf_sep) (simp_all add: marker_facts indexOf_None_iff)
  ultimately have tl: "indexOf ?tail OUTPUT_END_MARKER = Some (length d + 2)"
    by (simp add: indexOf_here)
  have "?after \<le> length ?s" by simp
  then have endi: "indexOf_from ?s OUTPUT_END_MARKER ?after = Some (?after + (length d + 2))"
    unfolding indexOf_from_def Let_def using tl dr by (simp add: min_def)
  have sl: "slice ?s ?after (?after + (length d + 2)) = ''\<newline>'' @ d @ ''\<newline>''"
    unfolding slice_def using dr by simp
  have rest: "drop (?after + (length d + 2) + length OUTPUT_END_MARKER) ?s = rest"
  proof -
    have "drop (?after + (length d + 2) + length OUTPUT_END_MARKER) ?s
        = drop (length d + 2 + length OUTPUT_END_MARKER) (drop ?after ?s)"
      by (simp only: drop_drop add.commute add.assoc add.left_commute)
    also have "\<dots> = rest" unfolding dr by simp
    finally show ?thesis .
  qed
  show ?thesis
    by (subst parse_frames.simps) (simp only: start endi sl rest Let_def option.case)
qed

lemma parse_frames_stream:
  assumes "\<forall>out \<in> set outs. \<not> includes_str (S out) OUTPUT_END_MARKER"
    and "CHR ''-'' \<notin> set pre"
  shows "parse_frames P acc (pre @ concat (map (writeOutput S) outs)) =
           (acc @ map (\<lambda>out. frame_output P (trim (''\<newline>'' @ S out @ ''\<newline>''))) outs,
            if outs = [] then pre else ''\<newline>'')"
  using assms
proof (induction outs arbitrary: acc pre)
  case Nil
  have "indexOf (pre @ []) OUTPUT_START_MARKER
          = map_option (\<lambda>i. length pre + i) (indexOf [] OUTPUT_START_MARKER)"
    using Nil.prems(2) by (intro indexOf_skip) (simp_all add: marker_facts)
  then have "indexOf pre OUTPUT_START_MARKER = None"
    by (simp add: marker_facts)
  then show ?case by (simp add: parse_frames.simps [of P acc pre])
next
  case (Cons out outs)
  have "parse_frames P acc (pre @ concat (map (writeOutput S) (out # outs)))
      = parse_frames P acc (pre @ ''\<newline>'' @ OUTPUT_START_MARKER @ ''\<newline>'' @ S out @ ''\<newline>''
          @ OUTPUT_END_MARKER @ (''\<newline>'' @ concat (map (writeOutput S) outs)))"
    by (simp add: writeOutput_def)
  also have "\<dots> = parse_frames P (acc @ [frame_output P (trim (''\<newline>'' @ S out @ ''\<newline>''))])
                     (''\<newline>'' @ concat (map (writeOutput S) outs))"
    using Cons.prems by (intro parse_frames_frame) simp_all
  also have "\<dots> = ((acc @ [frame_output P (trim (''\<newline>'' @ S out @ ''\<newline>''))])
                     @ map (\<lambda>out. frame_output P (trim (''\<newline>'' @ S out @ ''\<newline>''))) outs,
                    if outs = [] then ''\<newline>'' else ''\<newline>'')"
    using Cons.prems by (intro Cons.IH) simp_all
  finally show ?case by simp
qed

lemma trim_framed:
  assumes "s \<noteq> []" "\<not> is_space (hd s)" "\<not> is_space (last s)"
  shows "trim (''\<newline>'' @ s @ ''\<newline>'') = s"
proof -
  have nl: "is_space CHR ''\<newline>''" by (simp add: is_space_def)
  from assms obtain x xs where s: "s = x # xs" by (cases s) auto
  with assms have "dropWhile is_space (''\<newline>'' @ s @ ''\<newline>'') = s @ ''\<newline>''"
    using nl by simp
  moreover from assms have "dropWhile is_space (rev (s @ ''\<newline>'')) = rev s"
    using nl by (cases "rev s") (auto simp: last_rev hd_rev)
  ultimately show ?thesis by (simp add: trim_def)
qed

text \<open>
  C7. Buffers and chunks are strings, as \<open>parseContainerOutput\<close> receives them. Parsing
  the concatenation of two buffers gives the outputs of the first, followed by
  the outputs of its remainder joined to the second, and that parse's remainder. Hence
  feeding any chunks one at a time, from an empty buffer, gives what parsing their
  concatenation gives. And when the stream is what \<open>writeOutput\<close> wrote for a list of
  outputs, where the JSON text of each output parses back to it, has no white space at
  its ends and does not contain the end marker, the chunks yield exactly that list, in
  order, whatever the chunk boundaries are.
\<close>

theorem parse_chunking:
  "parseContainerOutput P (b1 @ b2) =
     (fst (parseContainerOutput P b1)
        @ fst (parseContainerOutput P (snd (parseContainerOutput P b1) @ b2)),
      snd (parseContainerOutput P (snd (parseContainerOutput P b1) @ b2)))
   \<and> feed_chunks P [] chunks = parseContainerOutput P (concat chunks)
   \<and> ((\<forall>out \<in> set outs.
          JSON_stringify out \<noteq> [] \<and> \<not> is_space (hd (JSON_stringify out))
          \<and> \<not> is_space (last (JSON_stringify out))
          \<and> P (JSON_stringify out) = Some out
          \<and> \<not> includes_str (JSON_stringify out) OUTPUT_END_MARKER)
        \<and> concat chunks = concat (map (writeOutput JSON_stringify) outs)
       \<longrightarrow> fst (feed_chunks P [] chunks) = outs)"
proof -
  have empty: "parseContainerOutput P [] = ([], [])"
    by (simp add: parseContainerOutput_def parse_frames.simps [of P "[]" "[]"] marker_facts)
  have feed: "feed_chunks P [] chunks = parseContainerOutput P (concat chunks)"
    using feed_chunks_concat [OF empty, of chunks] by simp
  have frames: "fst (feed_chunks P [] chunks) = outs"
    if h: "\<forall>out \<in> set outs.
          JSON_stringify out \<noteq> [] \<and> \<not> is_space (hd (JSON_stringify out))
          \<and> \<not> is_space (last (JSON_stringify out))
          \<and> P (JSON_stringify out) = Some out
          \<and> \<not> includes_str (JSON_stringify out) OUTPUT_END_MARKER"
      and c: "concat chunks = concat (map (writeOutput JSON_stringify) outs)"
  proof -
    from h have "\<forall>out \<in> set outs. \<not> includes_str (JSON_stringify out) OUTPUT_END_MARKER"
      by blast
    from parse_frames_stream [OF this, of "[]" P "[]"]
    have "fst (parseContainerOutput P (concat chunks)) =
            map (\<lambda>out. frame_output P (trim (''\<newline>'' @ JSON_stringify out @ ''\<newline>''))) outs"
      by (simp add: parseContainerOutput_def c)
    also have "\<dots> = map (\<lambda>out. out) outs"
    proof (rule map_cong [OF refl])
      fix out assume "out \<in> set outs"
      with h trim_framed [of "JSON_stringify out"]
      have "trim (''\<newline>'' @ JSON_stringify out @ ''\<newline>'') = JSON_stringify out"
        "P (JSON_stringify out) = Some out"
        by auto
      then show "frame_output P (trim (''\<newline>'' @ JSON_stringify out @ ''\<newline>'')) = out"
        by (simp add: frame_output_def)
    qed
    finally show ?thesis by (simp add: feed)
  qed
  from parseContainerOutput_append [of P b1 b2] feed frames show ?thesis by blast
qed


lemma split_chunks_concat:
  "concat split_chunks = concat (map (writeOutput demo_stringify) [ok_output])"
  by (simp add: split_chunks_def writeOutput_def demo_stringify_def OUTPUT_START_MARKER_def
      OUTPUT_END_MARKER_def)

lemma ok_json_wellformed:
  "demo_stringify ok_output \<noteq> []"
  "\<not> is_space (hd (demo_stringify ok_output))"
  "\<not> is_space (last (demo_stringify ok_output))"
  "demo_parse (demo_stringify ok_output) = Some ok_output"
  "\<not> includes_str (demo_stringify ok_output) OUTPUT_END_MARKER"
  by code_simp+

text \<open>Scenario S2: the three chunks yield the one output.\<close>

theorem parse_chunking_witness:
  "fst (feed_chunks demo_parse [] split_chunks) = [ok_output]"
proof -
  have h: "\<forall>out \<in> set [ok_output].
          demo_stringify out \<noteq> [] \<and> \<not> is_space (hd (demo_stringify out))
          \<and> \<not> is_space (last (demo_stringify out))
          \<and> demo_parse (demo_stringify out) = Some out
          \<and> \<not> includes_str (demo_stringify out) OUTPUT_END_MARKER"
    using ok_json_wellformed by simp
  from parse_chunking [of demo_parse "[]" "[]" split_chunks "[ok_output]" demo_stringify]
  have "(\<forall>out \<in> set [ok_output].
          demo_stringify out \<noteq> [] \<and> \<not> is_space (hd (demo_stringify out))
          \<and> \<not> is_space (last (demo_stringify out))
          \<and> demo_parse (demo_stringify out) = Some out
          \<and> \<not> includes_str (demo_stringify out) OUTPUT_END_MARKER)
        \<and> concat split_chunks = concat (map (writeOutput demo_stringify) [ok_output])
       \<longrightarrow> fst (feed_chunks demo_parse [] split_chunks) = [ok_output]"
    by blast
  with h split_chunks_concat show ?thesis by blast
qed


lemma output_loop_cb:
  "output_loop True st (out # outs) =
     st\<lparr> lastOutput := out, timer_armed := True, awaiting := awaiting st @ [outs],
         delivered := delivered st @ [out] \<rparr>"
  by simp


lemma output_loop_keeps [simp]:
  "resolution (output_loop cb st outs) = resolution st"
  "timedOut (output_loop cb st outs) = timedOut st"
  "stderrBuffer (output_loop cb st outs) = stderrBuffer st"
  "stdoutBuffer (output_loop cb st outs) = stdoutBuffer st"
  "timer_armed (output_loop cb st outs) = (timer_armed st \<or> outs \<noteq> [])"
  by (induction outs arbitrary: st) (auto simp: Let_def)












text \<open>The runs of the scenarios.\<close>

lemma demo_parses:
  "parseContainerOutput runner_parse first_part = ([], first_part)"
  "parseContainerOutput runner_parse (first_part @ second_part) = ([ok_output], ''\<newline>'')"
  "parseContainerOutput runner_parse (frame ok_json) = ([ok_output], ''\<newline>'')"
  "parseContainerOutput runner_parse (frame ok_json @ frame later_json)
     = ([ok_output, later_output], ''\<newline>'')"
  "parseContainerOutput runner_parse (frame ''null'') = ([JNull], ''\<newline>'')"
  "parseContainerOutput runner_parse (frame empty_json) = ([empty_output], ''\<newline>'')"
  "parseContainerOutput runner_parse [] = ([], [])"
  "parseContainerOutput runner_parse (CHR ''\<newline>'' # frame later_json)
     = ([later_output], ''\<newline>'')"
  by code_simp+

lemma demo_lengths:
  "length first_part = 40" "length second_part = 66" "length (frame ok_json) = 106"
  "length (frame later_json) = 89" "length (frame ''null'') = 56" "length (frame empty_json) = 104"
  by code_simp+


lemmas run_simps = run_container_def spawned_def demo_config_def createLogger_def Let_def
  on_last_output_def
  demo_parses demo_lengths stdout_of_def stderr_of_def last_output_def drop_nth_def
  log_caught_def log_call_def nullish_def boom_def new_Error_def








text \<open>
  Outside the runs that are in order, \<open>lastOutput\<close> need not be the last output parsed.
  When the child closes while the callback for the first of two outputs is awaited, the
  promise is resolved with the first; and when that callback rejects with \<open>null\<close>, the
  handler ends in its \<open>catch\<close> block and the second output is never recorded.
\<close>

lemma close_between_outputs:
  "fst (parseContainerOutput runner_parse (stdout_of race_run)) = [ok_output, later_output]
   \<and> resolution (run_container demo_config runner_parse show_nat True
        (race_run @ [Close (Some 0)])) = Fulfilled ok_output
   \<and> awaiting (run_container demo_config runner_parse show_nat True lost_run) = []
   \<and> resolution (run_container demo_config runner_parse show_nat True
        (lost_run @ [Close (Some 0)])) = Fulfilled ok_output"
  by (simp add: race_run_def lost_run_def run_simps settle_def close_result_def ok_output_def)

section \<open>IPC files: what is proved\<close>








lemma readIpcFile_data:
  "readIpcFile P fs p \<noteq> JNull \<Longrightarrow> readFileSync fs p \<noteq> None"
  by (auto simp: readIpcFile_def split: option.splits)


lemma drain_entries_skip:
  "\<not> wanted filt entry \<Longrightarrow>
   drain_entries P dir filt (entry # names) fs = drain_entries P dir filt names fs"
  by (auto simp: wanted_def split: option.splits)

lemma drain_entries_unread:
  "wanted filt entry \<Longrightarrow> readIpcFile P fs (path_join [dir, entry]) = JNull \<Longrightarrow>
   drain_entries P dir filt (entry # names) fs = drain_entries P dir filt names fs"
  by (auto simp: wanted_def Let_def split: option.splits)

lemma drain_entries_read:
  "wanted filt entry \<Longrightarrow> readIpcFile P fs (path_join [dir, entry]) \<noteq> JNull \<Longrightarrow>
   drain_entries P dir filt (entry # names) fs =
     ((readIpcFile P fs (path_join [dir, entry]), entry)
        # fst (drain_entries P dir filt names
                (if unlink_fails fs (path_join [dir, entry]) then fs
                 else fs\<lparr> readFileSync := (readFileSync fs)(path_join [dir, entry] := None) \<rparr>)),
      snd (drain_entries P dir filt names
                (if unlink_fails fs (path_join [dir, entry]) then fs
                 else fs\<lparr> readFileSync := (readFileSync fs)(path_join [dir, entry] := None) \<rparr>)))"
  by (auto simp: wanted_def Let_def unlinkSync_def dest: readIpcFile_data split: option.splits)

declare drain_entries.simps [simp del]





lemma mail_sorted:
  "sort [''2-b.json'', ''1-a.json'', ''.3-c.json.tmp'', ''4-bad.json'', ''notes.txt'']
     = [''.3-c.json.tmp'', ''1-a.json'', ''2-b.json'', ''4-bad.json'', ''notes.txt'']"
  by code_simp

lemma mail_paths:
  "path_join [''/data/ipc/g1/messages'', ''1-a.json''] = ''/data/ipc/g1/messages/1-a.json''"
  "path_join [''/data/ipc/g1/messages'', ''2-b.json''] = ''/data/ipc/g1/messages/2-b.json''"
  "path_join [''/data/ipc/g1/messages'', ''4-bad.json''] = ''/data/ipc/g1/messages/4-bad.json''"
  "path_join [''/data/ipc/g1/messages'', ''.3-c.json.tmp''] = ''/data/ipc/g1/messages/.3-c.json.tmp''"
  "path_join [''/data/ipc/g1/messages'', ''notes.txt''] = ''/data/ipc/g1/messages/notes.txt''"
  by code_simp+


lemma mail_wanted:
  "wanted None ''1-a.json''" "wanted None ''2-b.json''" "wanted None ''4-bad.json''"
  "\<not> wanted None ''.3-c.json.tmp''" "\<not> wanted None ''notes.txt''"
  by code_simp+

lemma mail_read:
  "readIpcFile mail_parse mail_fs ''/data/ipc/g1/messages/1-a.json'' = cross_message"
  "readIpcFile mail_parse mail_fs ''/data/ipc/g1/messages/2-b.json'' = plain_message"
  "readIpcFile mail_parse mail_fs ''/data/ipc/g1/messages/4-bad.json'' = JNull"
  by (simp_all add: readIpcFile_def mail_fs_def mail_files_def mail_parse_def)




section \<open>IPC watcher: what is proved\<close>

lemma handle_message_sends:
  assumes "SendMessage j t s \<in> set (handle_message deps isMain dir gf entry)"
    and "\<not> isMain"
    and "find (\<lambda>g. folder g = gf) (getRegisteredGroups deps) = Some g"
  shows "j = JStr (jid g)"
  using assms
  by (auto simp: handle_message_def Let_def js_or_def split: if_splits)

lemma handle_task_sends:
  "SendMessage j t s \<notin> set (handle_task deps isMain dir gf entry)"
  by (auto simp: handle_task_def Let_def split: if_splits)

lemma poll_group_sends:
  assumes "SendMessage j t s \<in> set (fst (poll_group deps P ipcBase fs gf))"
    and "gf \<noteq> ''main''"
    and "find (\<lambda>g. folder g = gf) (getRegisteredGroups deps) = Some g"
  shows "j = JStr (jid g)"
proof -
  have nm: "\<not> list_ex (\<lambda>g. folder g = gf \<and> folder g = ''main'') (getRegisteredGroups deps)"
    using assms(2) by (auto simp: list_ex_iff)
  from assms(1) obtain entry dir where
    "SendMessage j t s \<in> set (handle_message deps False dir gf entry)"
    using nm handle_task_sends by (auto simp: poll_group_def Let_def)
  then show ?thesis
    using assms(3) by (intro handle_message_sends [where isMain = False]) auto
qed

lemma poll_groups_effect:
  "(gf, e) \<in> set (fst (poll_groups deps P ipcBase dirs fs)) \<Longrightarrow>
   \<exists>fs'. e \<in> set (fst (poll_group deps P ipcBase fs' gf))"
  by (induction dirs arbitrary: fs) (auto simp: Let_def)

text \<open>An entry with text whose target is truthy and differs from the jid of the folder's
  registered group is skipped with a warning.\<close>

lemma handle_message_cross_group:
  assumes "\<not> isMain"
    and "find (\<lambda>g. folder g = gf) (getRegisteredGroups deps) = Some g"
    and "truthy_opt (get_prop data ''text'')"
    and "js_or (get_prop data ''targetJid'') (get_prop data ''target_jid'') = Some target"
    and "truthy target" "target \<noteq> JStr (jid g)"
  shows "handle_message deps isMain dir gf (data, filename) =
           [Warn ''Non-main group attempted cross-group message'']"
  using assms by (simp add: handle_message_def Let_def)

lemma ipc_paths:
  "path_join [''/data/ipc'', ''g1''] = ''/data/ipc/g1''"
  "path_join [''/data/ipc'', ''README''] = ''/data/ipc/README''"
  "path_join [''/data/ipc'', ''g1'', ''messages''] = ''/data/ipc/g1/messages''"
  "path_join [''/data/ipc'', ''g1'', ''tasks''] = ''/data/ipc/g1/tasks''"
  by code_simp+

lemma mail_drain:
  "drainIpcDir mail_parse mail_fs ''/data/ipc/g1/messages'' None =
     ([(cross_message, ''1-a.json''), (plain_message, ''2-b.json'')], mail_fs_after)"
proof -
  let ?dir = "''/data/ipc/g1/messages''"
  have r2: "readIpcFile mail_parse mail_fs_after ''/data/ipc/g1/messages/2-b.json'' = plain_message"
    "readIpcFile mail_parse mail_fs_after ''/data/ipc/g1/messages/4-bad.json'' = JNull"
    by (simp_all add: readIpcFile_def mail_fs_after_def mail_fs_def mail_files_def mail_parse_def)
  have u: "\<not> unlink_fails mail_fs ''/data/ipc/g1/messages/1-a.json''"
    "unlink_fails mail_fs_after ''/data/ipc/g1/messages/2-b.json''"
    by (simp_all add: mail_fs_after_def mail_fs_def mail_locked_def)
  have "drainIpcDir mail_parse mail_fs ?dir None =
          drain_entries mail_parse ?dir None
            [''.3-c.json.tmp'', ''1-a.json'', ''2-b.json'', ''4-bad.json'', ''notes.txt''] mail_fs"
    by (simp add: drainIpcDir_def mail_fs_def mail_listing_def mail_sorted)
  also have "\<dots> = drain_entries mail_parse ?dir None
            [''1-a.json'', ''2-b.json'', ''4-bad.json'', ''notes.txt''] mail_fs"
    by (rule drain_entries_skip) (rule mail_wanted)
  also have "\<dots> = ((cross_message, ''1-a.json'')
        # fst (drain_entries mail_parse ?dir None [''2-b.json'', ''4-bad.json'', ''notes.txt''] mail_fs_after),
        snd (drain_entries mail_parse ?dir None [''2-b.json'', ''4-bad.json'', ''notes.txt''] mail_fs_after))"
    using u(1)
    by (subst drain_entries_read)
       (simp_all add: mail_wanted mail_paths mail_read cross_message_def mail_fs_after_def)
  also have "drain_entries mail_parse ?dir None [''2-b.json'', ''4-bad.json'', ''notes.txt''] mail_fs_after
      = ((plain_message, ''2-b.json'')
        # fst (drain_entries mail_parse ?dir None [''4-bad.json'', ''notes.txt''] mail_fs_after),
        snd (drain_entries mail_parse ?dir None [''4-bad.json'', ''notes.txt''] mail_fs_after))"
    using u(2)
    by (subst drain_entries_read)
       (simp_all add: mail_wanted mail_paths r2 plain_message_def)
  also have "drain_entries mail_parse ?dir None [''4-bad.json'', ''notes.txt''] mail_fs_after
      = drain_entries mail_parse ?dir None [''notes.txt''] mail_fs_after"
    by (rule drain_entries_unread) (simp_all add: mail_wanted mail_paths r2)
  also have "\<dots> = drain_entries mail_parse ?dir None [] mail_fs_after"
    by (rule drain_entries_skip) (rule mail_wanted)
  also have "\<dots> = ([], mail_fs_after)"
    by (simp add: drain_entries.simps)
  finally show ?thesis by simp
qed

lemma tasks_drain:
  "drainIpcDir mail_parse mail_fs_after ''/data/ipc/g1/tasks'' None = ([], mail_fs_after)"
  by (simp add: drainIpcDir_def mail_fs_after_def mail_fs_def mail_listing_def drain_entries.simps)

lemma poll_dirs:
  "poll deps mail_parse ''/data/ipc'' mail_fs =
     poll_groups deps mail_parse ''/data/ipc'' [''g1''] mail_fs"
  by (simp add: poll_def mail_fs_def mail_listing_def mail_dirs_def ipc_paths)

lemma poll_one_group:
  "fst (poll_groups deps P ipcBase [gf] fs) = map (Pair gf) (fst (poll_group deps P ipcBase fs gf))"
  by (simp add: Let_def)

lemma poll_group_mail:
  "fst (poll_group deps mail_parse ''/data/ipc'' mail_fs ''g1'') =
     handle_message deps False ''/data/ipc/g1/messages'' ''g1'' (cross_message, ''1-a.json'')
     @ handle_message deps False ''/data/ipc/g1/messages'' ''g1'' (plain_message, ''2-b.json'')"
proof -
  have "\<not> list_ex (\<lambda>g. folder g = ''g1'' \<and> folder g = ''main'') (getRegisteredGroups deps)"
    by (auto simp: list_ex_iff)
  then show ?thesis
    by (simp add: poll_group_def Let_def ipc_paths mail_drain tasks_drain)
qed

text \<open>
  C1, as the claim states it, fails for a folder that no registered group has: the check
  is skipped when the lookup of the group finds nothing, and the target of the entry goes
  to \<open>sendMessage\<close> as it is. Here the mailbox of the folder \<open>g1\<close>, which is not registered,
  makes the watcher send to \<open>j2\<close>, the chat of another group.
\<close>

theorem unregistered_folder_sends_anywhere:
  "fst (poll unregistered_deps mail_parse ''/data/ipc'' mail_fs) =
     [(''g1'', SendMessage (JStr ''j2'') (JStr ''hello'') None)]"
  unfolding poll_dirs poll_one_group poll_group_mail
  by (simp add: handle_message_def js_or_def cross_message_def plain_message_def
      unregistered_deps_def other_group_def delivers_def)

text \<open>
  C1 (amended). In every poll, for every folder other than \<open>main\<close> that a registered group
  has, every call of \<open>sendMessage\<close> made for an entry of that folder's messages mailbox
  carries the jid of that group (the first registered group with the folder): an entry
  whose target differs from it never reaches \<open>sendMessage\<close>.
\<close>

theorem poll_authorization:
  assumes "(gf, SendMessage j t s) \<in> set (fst (poll deps P ipcBase fs))"
    and "gf \<noteq> ''main''"
    and "find (\<lambda>g. folder g = gf) (getRegisteredGroups deps) = Some g"
  shows "j = JStr (jid g)"
proof -
  from assms(1) obtain dirs where
    "(gf, SendMessage j t s) \<in> set (fst (poll_groups deps P ipcBase dirs fs))"
    by (auto simp: poll_def split: option.splits)
  then obtain fs' where "SendMessage j t s \<in> set (fst (poll_group deps P ipcBase fs' gf))"
    using poll_groups_effect by blast
  then show ?thesis
    using assms(2,3) by (rule poll_group_sends)
qed


text \<open>Scenario S6: with the group of \<open>g1\<close> registered, the message for \<open>j2\<close> is skipped
  with a warning, and the message without target goes to the group's own chat \<open>j1\<close>.\<close>

lemma poll_registered:
  "fst (poll registered_deps mail_parse ''/data/ipc'' mail_fs) =
     [(''g1'', Warn ''Non-main group attempted cross-group message''),
      (''g1'', SendMessage (JStr ''j1'') (JStr ''hi'') None)]"
  unfolding poll_dirs poll_one_group poll_group_mail
  by (simp add: handle_message_def js_or_def cross_message_def plain_message_def
      registered_deps_def other_group_def own_group_def delivers_def)

theorem poll_authorization_witness:
  "fst (poll registered_deps mail_parse ''/data/ipc'' mail_fs) =
     [(''g1'', Warn ''Non-main group attempted cross-group message''),
      (''g1'', SendMessage (JStr ''j1'') (JStr ''hi'') None)]
   \<and> find (\<lambda>g. folder g = ''g1'') (getRegisteredGroups registered_deps) = Some own_group
   \<and> JStr ''j1'' = JStr (jid own_group)"
proof -
  have m: "(''g1'', SendMessage (JStr ''j1'') (JStr ''hi'') None)
             \<in> set (fst (poll registered_deps mail_parse ''/data/ipc'' mail_fs))"
    by (simp add: poll_registered)
  have n: "''g1'' \<noteq> ''main''" by simp
  have f: "find (\<lambda>g. folder g = ''g1'') (getRegisteredGroups registered_deps) = Some own_group"
    by (simp add: registered_deps_def own_group_def)
  from poll_authorization [OF m n f] poll_registered f show ?thesis by simp
qed


end
